theory Spec2Isabelle
  imports Complex_Main "HOL-Library.Sublist" "HOL-Library.Log_Nat"
begin

section \<open>Strings\<close>

text \<open>
  A Python \<open>str\<close> is modelled as a \<open>string\<close>, a list of 8-bit characters read as ASCII.
  \<open>str.lower\<close>, \<open>str.upper\<close> and the regular-expression class \<open>\w\<close> are modelled on
  ASCII only; what Python does with letters beyond ASCII is outside this model.
\<close>

definition upper_letters :: string where
  "upper_letters = ''ABCDEFGHIJKLMNOPQRSTUVWXYZ''"

definition lower_letters :: string where
  "lower_letters = ''abcdefghijklmnopqrstuvwxyz''"

definition digits :: string where
  "digits = ''0123456789''"

definition lower_char :: "char \<Rightarrow> char" where
  "lower_char c = (case map_of (zip upper_letters lower_letters) c of Some d \<Rightarrow> d | None \<Rightarrow> c)"

definition upper_char :: "char \<Rightarrow> char" where
  "upper_char c = (case map_of (zip lower_letters upper_letters) c of Some d \<Rightarrow> d | None \<Rightarrow> c)"

definition lower :: "string \<Rightarrow> string" where
  "lower s = map lower_char s"

definition is_digit :: "char \<Rightarrow> bool" where
  "is_digit c = (c \<in> set digits)"

definition is_word_char :: "char \<Rightarrow> bool" where
  \<comment> \<open>the class \<open>\w\<close>: letters, digits and the underscore\<close>
  "is_word_char c = (c \<in> set (lower_letters @ upper_letters @ digits @ ''_''))"

fun str_in :: "string \<Rightarrow> string \<Rightarrow> bool" where
  \<comment> \<open>Python's \<open>sub in s\<close>\<close>
  "str_in sub [] = (sub = [])"
| "str_in sub (c # cs) = (prefix sub (c # cs) \<or> str_in sub cs)"

fun py_replace :: "string \<Rightarrow> string \<Rightarrow> string \<Rightarrow> string" where
  \<comment> \<open>\<open>s.replace(old, new)\<close> for a non-empty \<open>old\<close>, the only use the source makes of it:
      the occurrences are replaced from the left, without overlap\<close>
  "py_replace old new [] = []"
| "py_replace old new (c # cs) =
     (if old \<noteq> [] \<and> prefix old (c # cs)
      then new @ py_replace old new (drop (length old - 1) cs)
      else c # py_replace old new cs)"

fun join :: "string \<Rightarrow> string list \<Rightarrow> string" where
  \<comment> \<open>\<open>sep.join(xs)\<close>\<close>
  "join sep [] = []"
| "join sep [x] = x"
| "join sep (x # y # ys) = x @ sep @ join sep (y # ys)"

section \<open>Regular expressions\<close>

text \<open>
  The patterns of the source are alternatives of sequences of literals and the
  zero-width assertions \<open>^\<close>, \<open>$\<close> and \<open>\b\<close>. A position in the subject is the pair of
  the text before it (reversed) and the text after it. Without the MULTILINE flag \<open>^\<close>
  holds at the start only, and \<open>$\<close> at the end or just before a final newline.
\<close>

datatype atom = Lit string | Bol | Eol | Wordb

type_synonym regex = "atom list list"

definition word_before :: "string \<Rightarrow> bool" where
  "word_before b = (case b of [] \<Rightarrow> False | c # _ \<Rightarrow> is_word_char c)"

fun match_atoms :: "atom list \<Rightarrow> string \<Rightarrow> string \<Rightarrow> (string \<times> string) option" where
  "match_atoms [] b a = Some (b, a)"
| "match_atoms (Lit w # r) b a =
     (if prefix w a then match_atoms r (rev w @ b) (drop (length w) a) else None)"
| "match_atoms (Bol # r) b a = (if b = [] then match_atoms r b a else None)"
| "match_atoms (Eol # r) b a =
     (if a = [] \<or> a = [CHR 0x0A] then match_atoms r b a else None)"
| "match_atoms (Wordb # r) b a =
     (if word_before b \<noteq> word_before a then match_atoms r b a else None)"

definition match_here :: "regex \<Rightarrow> string \<Rightarrow> string \<Rightarrow> bool" where
  "match_here rx b a = list_ex (\<lambda>p. match_atoms p b a \<noteq> None) rx"

fun search_from :: "regex \<Rightarrow> string \<Rightarrow> string \<Rightarrow> bool" where
  "search_from rx b [] = match_here rx b []"
| "search_from rx b (c # cs) = (match_here rx b (c # cs) \<or> search_from rx (c # b) cs)"

definition re_search :: "regex \<Rightarrow> string \<Rightarrow> bool" where
  \<comment> \<open>whether \<open>re.search(rx, s)\<close> finds a match\<close>
  "re_search rx s = search_from rx [] s"

function sub_from :: "atom list \<Rightarrow> string \<Rightarrow> string \<Rightarrow> string \<Rightarrow> string" where
  \<comment> \<open>\<open>re.sub\<close> for one sequence whose matches are never empty (each pattern of the
      source holds a literal): leftmost matches, without overlap\<close>
  "sub_from p r b [] = []"
| "sub_from p r b (c # cs) =
     (case match_atoms p b (c # cs) of
        Some (b', a') \<Rightarrow>
          if length a' < length (c # cs) then r @ sub_from p r b' a'
          else c # sub_from p r (c # b) cs
      | None \<Rightarrow> c # sub_from p r (c # b) cs)"
  by pat_completeness auto
termination
  by (relation "measure (\<lambda>(p, r, b, a). length a)") auto

definition re_sub :: "atom list \<Rightarrow> string \<Rightarrow> string \<Rightarrow> string" where
  "re_sub p r s = sub_from p r [] s"

section \<open>Name cleaning\<close>

definition abbreviations :: "(string \<times> string) list" where
  "abbreviations =
    [(''adt'', ''audit''), (''anb'', ''account number''), (''sk'', ''surrogate key''),
     (''pk'', ''primary key''), (''fk'', ''foreign key''), (''id'', ''identifier''),
     (''scd'', ''slowly changing dimension''), (''dob'', ''date of birth''),
     (''ssn'', ''social security number''), (''num'', ''number''), (''amt'', ''amount''),
     (''qty'', ''quantity''), (''addr'', ''address''), (''tel'', ''telephone'')]"

definition expand :: "string \<Rightarrow> string \<times> string \<Rightarrow> string" where
  \<comment> \<open>\<open>re.sub(r'\bw\b', r, name)\<close>\<close>
  "expand name wr = re_sub [Wordb, Lit (fst wr), Wordb] (snd wr) name"

definition clean_column_name :: "string \<Rightarrow> string" where
  "clean_column_name column_name =
     (let name = lower (py_replace ''_'' '' '' column_name);
          name = foldl expand name abbreviations
      in case name of [] \<Rightarrow> [] | c # cs \<Rightarrow> upper_char c # cs)"

section \<open>Python values\<close>

text \<open>
  A \<open>float\<close> is an IEEE double: a finite value, given exactly as a rational (\<open>Fin 0\<close>
  is the zero \<open>0.0\<close>), the negative zero \<open>-0.0\<close>, an infinity or a NaN.
  A \<open>Decimal\<close> is a sign, a coefficient and
  an exponent, an infinity, a quiet or a signalling NaN. \<open>PObj n s\<close> is an object of any
  other class, with the name \<open>n\<close> of its class and its \<open>str\<close> form \<open>s\<close>; it defines no
  conversion to \<open>float\<close>.
\<close>

datatype pyfloat = Fin rat | NegZero | PosInf | NegInf | NaN

datatype pydecimal = DFin bool nat int | DInf bool | DNaN | DSNaN

datatype pyval =
    PNone
  | PStr string
  | PInt int
  | PBool bool
  | PFloat pyfloat
  | PDecimal pydecimal
  | PObj string string

datatype pyerror = ValueError | TypeError | OverflowError | IndexError

fun type_name :: "pyval \<Rightarrow> string" where
  \<comment> \<open>\<open>type(item).__name__\<close>\<close>
  "type_name PNone = ''NoneType''"
| "type_name (PStr s) = ''str''"
| "type_name (PInt i) = ''int''"
| "type_name (PBool b) = ''bool''"
| "type_name (PFloat f) = ''float''"
| "type_name (PDecimal d) = ''Decimal''"
| "type_name (PObj n s) = n"

subsection \<open>Rounding to a double\<close>

definition pow2 :: "int \<Rightarrow> rat" where
  "pow2 e = (if 0 \<le> e then 2 ^ nat e else 1 / 2 ^ nat (- e))"

definition floor_log2 :: "rat \<Rightarrow> int" where
  \<comment> \<open>for \<open>a > 0\<close>, the \<open>e\<close> with \<open>2 ^ e \<le> a < 2 ^ (e + 1)\<close>\<close>
  "floor_log2 a =
     (let k = bitlen (fst (quotient_of a)) - bitlen (snd (quotient_of a))
      in if pow2 k \<le> a then k else k - 1)"

definition round_half_even :: "rat \<Rightarrow> int" where
  "round_half_even x =
     (let f = \<lfloor>x\<rfloor>; r = x - of_int f
      in if r < 1 / 2 then f else if 1 / 2 < r then f + 1 else if even f then f else f + 1)"

definition zero :: "bool \<Rightarrow> pyfloat" where
  "zero neg = (if neg then NegZero else Fin 0)"

definition round_double :: "bool \<Rightarrow> rat \<Rightarrow> pyfloat" where
  \<comment> \<open>the double nearest to the number of sign \<open>neg\<close> and magnitude \<open>a \<ge> 0\<close>, ties to
      even: 53 bits of precision, exponents down to the subnormal range, an infinity
      where the rounded magnitude reaches \<open>2 ^ 1024\<close>, and a zero, which keeps the sign,
      where it is zero\<close>
  "round_double neg a =
     (if a = 0 then zero neg
      else let e = max (floor_log2 a) (- 1022);
               ulp = pow2 (e - 52);
               n = round_half_even (a / ulp);
               v = of_int n * ulp
           in if 1024 \<le> e \<or> (e = 1023 \<and> n = 2 ^ 53)
              then (if neg then NegInf else PosInf)
              else if v = 0 then zero neg
              else Fin (if neg then - v else v))"

definition decimal_magnitude :: "nat \<Rightarrow> int \<Rightarrow> rat" where
  "decimal_magnitude c e =
     (if 0 \<le> e then of_nat c * 10 ^ nat e else of_nat c / 10 ^ nat (- e))"

fun py_float :: "pyval \<Rightarrow> pyerror + pyfloat" where
  \<comment> \<open>\<open>float(item)\<close>. An \<open>int\<close> too large for a double raises OverflowError; a
      signalling NaN raises ValueError; an object without the conversion raises
      TypeError. The source calls it on items of type int, float or Decimal only.\<close>
  "py_float (PInt i) =
     (case round_double (i < 0) (of_int \<bar>i\<bar>) of
        PosInf \<Rightarrow> Inl OverflowError
      | NegInf \<Rightarrow> Inl OverflowError
      | f \<Rightarrow> Inr f)"
| "py_float (PFloat f) = Inr f"
| "py_float (PDecimal (DFin neg c e)) = Inr (round_double neg (decimal_magnitude c e))"
| "py_float (PDecimal (DInf neg)) = Inr (if neg then NegInf else PosInf)"
| "py_float (PDecimal DNaN) = Inr NaN"
| "py_float (PDecimal DSNaN) = Inl ValueError"
| "py_float (PBool b) = Inr (Fin (if b then 1 else 0))"
| "py_float (PStr s) = Inl ValueError"
| "py_float PNone = Inl TypeError"
| "py_float (PObj n s) = Inl TypeError"

subsection \<open>Comparison, minimum and maximum\<close>

fun finite_value :: "pyfloat \<Rightarrow> rat" where
  \<comment> \<open>the value of a finite double; both zeros have the value 0\<close>
  "finite_value (Fin q) = q"
| "finite_value NegZero = 0"
| "finite_value PosInf = 0"
| "finite_value NegInf = 0"
| "finite_value NaN = 0"

fun float_lt :: "pyfloat \<Rightarrow> pyfloat \<Rightarrow> bool" where
  \<comment> \<open>\<open>x < y\<close> on doubles: every comparison with a NaN is false\<close>
  "float_lt NaN y = False"
| "float_lt x NaN = False"
| "float_lt x NegInf = False"
| "float_lt NegInf y = True"
| "float_lt PosInf y = False"
| "float_lt x PosInf = True"
| "float_lt x y = (finite_value x < finite_value y)"

definition py_min :: "pyfloat \<Rightarrow> pyfloat list \<Rightarrow> pyfloat" where
  \<comment> \<open>\<open>min(numbers)\<close> of the non-empty list \<open>x # xs\<close>: the first item, replaced by each
      later item that is smaller\<close>
  "py_min x xs = foldl (\<lambda>m y. if float_lt y m then y else m) x xs"

definition py_max :: "pyfloat \<Rightarrow> pyfloat list \<Rightarrow> pyfloat" where
  "py_max x xs = foldl (\<lambda>m y. if float_lt m y then y else m) x xs"

subsection \<open>Formatting\<close>

definition digit_char :: "nat \<Rightarrow> char" where
  \<comment> \<open>the character of a digit \<open>d < 10\<close>\<close>
  "digit_char d = digits ! d"

fun show_nat :: "nat \<Rightarrow> string" where
  "show_nat n = (if n < 10 then [digit_char n] else show_nat (n div 10) @ [digit_char (n mod 10)])"

declare show_nat.simps [simp del]

definition show_int :: "int \<Rightarrow> string" where
  "show_int i = (if i < 0 then CHR ''-'' # show_nat (nat (- i)) else show_nat (nat i))"

fun fmt2 :: "pyfloat \<Rightarrow> string" where
  \<comment> \<open>the format \<open>.2f\<close>: the exact value rounded to two decimals, ties to even\<close>
  "fmt2 (Fin q) =
     (let n = nat (round_half_even (\<bar>q\<bar> * 100))
      in (if q < 0 then ''-'' else []) @ show_nat (n div 100) @ ''.''
         @ [digit_char (n mod 100 div 10), digit_char (n mod 10)])"
| "fmt2 NegZero = ''-0.00''"
| "fmt2 PosInf = ''inf''"
| "fmt2 NegInf = ''-inf''"
| "fmt2 NaN = ''nan''"

subsection \<open>What the model takes from the Python runtime\<close>

text \<open>
  The named-entity extractor (the labels of \<open>doc.ents\<close>, in document order), the \<open>str\<close>
  forms of a float and of a Decimal, the mean \<open>sum(numbers) / len(numbers)\<close> in double
  arithmetic, which raises nothing on a non-empty list, and the order in which a set of
  strings is iterated, which Python leaves open: the model sorts by a rank.
\<close>

record pyenv =
  ner :: "string \<Rightarrow> string list"
  float_repr :: "pyfloat \<Rightarrow> string"
  decimal_str :: "pydecimal \<Rightarrow> string"
  float_mean :: "pyfloat list \<Rightarrow> pyfloat"
  set_rank :: "string \<Rightarrow> nat"

fun py_str :: "pyenv \<Rightarrow> pyval \<Rightarrow> string" where
  \<comment> \<open>\<open>str(item)\<close>\<close>
  "py_str env PNone = ''None''"
| "py_str env (PStr s) = s"
| "py_str env (PInt i) = show_int i"
| "py_str env (PBool b) = (if b then ''True'' else ''False'')"
| "py_str env (PFloat f) = float_repr env f"
| "py_str env (PDecimal d) = decimal_str env d"
| "py_str env (PObj n s) = s"

definition list_of_set :: "pyenv \<Rightarrow> string list \<Rightarrow> string list" where
  \<comment> \<open>\<open>list(set(xs))\<close>\<close>
  "list_of_set env xs = sort_key (set_rank env) (remdups xs)"

subsection \<open>Counters\<close>

text \<open>
  A \<open>Counter\<close> keeps its keys in the order of their first occurrence, and
  \<open>most_common(n)\<close> is the first \<open>n\<close> items of a stable sort by decreasing count.
\<close>

fun counter_add :: "'a \<Rightarrow> ('a \<times> nat) list \<Rightarrow> ('a \<times> nat) list" where
  "counter_add x [] = [(x, 1)]"
| "counter_add x (yn # c) =
     (if x = fst yn then (fst yn, Suc (snd yn)) # c else yn # counter_add x c)"

definition counter :: "'a list \<Rightarrow> ('a \<times> nat) list" where
  "counter xs = foldl (\<lambda>c x. counter_add x c) [] xs"

definition most_common :: "nat \<Rightarrow> ('a \<times> nat) list \<Rightarrow> ('a \<times> nat) list" where
  "most_common n c = take n (sort_key (\<lambda>vc. - int (snd vc)) c)"

section \<open>The sample analyzer\<close>

record stats =
  st_min :: pyfloat
  st_max :: pyfloat
  st_avg :: pyfloat

record analysis =
  a_type :: "string option"
  a_common_values :: "(string \<times> nat) list option"
  a_patterns :: "string list"
  a_entity_types :: "(string \<times> nat) list"
  a_stats :: "stats option"

definition empty_analysis :: analysis where
  "empty_analysis =
     \<lparr>a_type = None, a_common_values = None, a_patterns = [], a_entity_types = [],
      a_stats = None\<rparr>"

definition numeric_names :: "string list" where
  "numeric_names = [''int'', ''float'', ''Decimal'']"

fun collect :: "pyval list \<Rightarrow> string list \<Rightarrow> pyfloat list \<Rightarrow> pyerror + (string list \<times> pyfloat list)" where
  \<comment> \<open>the loop over the items: the set \<open>types\<close>, kept without duplicates, and the list
      \<open>numbers\<close>; only ValueError and TypeError are caught\<close>
  "collect [] types numbers = Inr (types, numbers)"
| "collect (item # rest) types numbers =
     (if item = PNone then collect rest types numbers
      else let item_type = type_name item;
               types' = (if item_type \<in> set types then types else types @ [item_type])
           in if item_type \<in> set numeric_names
              then (case py_float item of
                      Inr f \<Rightarrow> collect rest types' (numbers @ [f])
                    | Inl e \<Rightarrow>
                        if e = ValueError \<or> e = TypeError then collect rest types' numbers
                        else Inl e)
              else collect rest types' numbers)"

definition not_none :: "pyval list \<Rightarrow> pyval list" where
  "not_none data = filter (\<lambda>item. item \<noteq> PNone) data"

definition predominant_type :: "string list \<Rightarrow> pyval list \<Rightarrow> pyerror + string option" where
  "predominant_type types data =
     (if length types = 1
      then (case types of [] \<Rightarrow> Inl IndexError | t # _ \<Rightarrow> Inr (Some t))
      else if 1 < length types
      then (case most_common 1 (counter (map type_name (not_none data))) of
              [] \<Rightarrow> Inl IndexError
            | tc # _ \<Rightarrow> Inr (Some (fst tc)))
      else Inr None)"

definition analyze_text :: "pyenv \<Rightarrow> pyval list \<Rightarrow> analysis \<Rightarrow> analysis" where
  \<comment> \<open>the branch of a sample whose type is \<open>str\<close>\<close>
  "analyze_text env data an =
     (let common_values = most_common 5 (counter (map (py_str env) (not_none data)));
          an = (if common_values \<noteq> [] then an\<lparr>a_common_values := Some common_values\<rparr> else an);
          sample_text = join '' '' (map (py_str env) (not_none data))
      in if 0 < length sample_text
         then let entities = counter (ner env (take 10000 sample_text))
              in if entities \<noteq> [] then an\<lparr>a_entity_types := most_common 3 entities\<rparr> else an
         else an)"

definition number_stats :: "pyenv \<Rightarrow> pyfloat list \<Rightarrow> stats option" where
  \<comment> \<open>\<open>analysis['stats']\<close>: filled when \<open>numbers\<close> is not empty\<close>
  "number_stats env numbers =
     (case numbers of
        [] \<Rightarrow> None
      | x # xs \<Rightarrow>
          Some \<lparr>st_min = py_min x xs, st_max = py_max x xs, st_avg = float_mean env numbers\<rparr>)"

definition analyze_sample_data :: "pyenv \<Rightarrow> pyval list \<Rightarrow> pyerror + analysis" where
  "analyze_sample_data env data =
     (if data = [] then Inr empty_analysis
      else case collect data [] [] of
             Inl e \<Rightarrow> Inl e
           | Inr (types, numbers) \<Rightarrow>
               (case predominant_type types data of
                  Inl e \<Rightarrow> Inl e
                | Inr ty \<Rightarrow>
                    let an = empty_analysis\<lparr>a_type := ty, a_stats := number_stats env numbers\<rparr>
                    in if ty = Some ''str'' \<or> ty = Some ''string''
                       then Inr (analyze_text env data an)
                       else Inr an))"

section \<open>Column descriptions\<close>

definition id_rx :: regex where
  \<comment> \<open>\<open>id$|^id|_id$\<close>\<close>
  "id_rx = [[Lit ''id'', Eol], [Bol, Lit ''id''], [Lit ''_id'', Eol]]"

definition pk_rx :: regex where
  \<comment> \<open>\<open>^pk_|^primary_\<close>\<close>
  "pk_rx = [[Bol, Lit ''pk_''], [Bol, Lit ''primary_'']]"

definition fk_rx :: regex where
  \<comment> \<open>\<open>^fk_|^foreign_\<close>\<close>
  "fk_rx = [[Bol, Lit ''fk_''], [Bol, Lit ''foreign_'']]"

definition date_rx :: regex where
  \<comment> \<open>\<open>_dt$|_date$\<close>\<close>
  "date_rx = [[Lit ''_dt'', Eol], [Lit ''_date'', Eol]]"

definition amount_rx :: regex where
  \<comment> \<open>\<open>_amt$|_amount$\<close>\<close>
  "amount_rx = [[Lit ''_amt'', Eol], [Lit ''_amount'', Eol]]"

definition flag_rx :: regex where
  \<comment> \<open>\<open>is_|_flag$|_flg$\<close>\<close>
  "flag_rx = [[Lit ''is_''], [Lit ''_flag'', Eol], [Lit ''_flg'', Eol]]"

text \<open>The conditions of the \<open>if\<close>/\<open>elif\<close> chain, in the order of the source.\<close>

definition is_id_col :: "string \<Rightarrow> bool" where
  "is_id_col column_name = re_search id_rx (lower column_name)"

definition is_date_col :: "string \<Rightarrow> bool" where
  "is_date_col column_name =
     (str_in ''date'' (lower column_name) \<or> re_search date_rx (lower column_name))"

definition is_amount_col :: "string \<Rightarrow> bool" where
  "is_amount_col column_name =
     (str_in ''amount'' (lower column_name) \<or> re_search amount_rx (lower column_name))"

definition is_count_col :: "string \<Rightarrow> bool" where
  "is_count_col column_name =
     (str_in ''count'' (lower column_name) \<or> str_in ''qty'' (lower column_name)
      \<or> str_in ''quantity'' (lower column_name))"

definition is_flag_col :: "string \<Rightarrow> bool" where
  "is_flag_col column_name = re_search flag_rx (lower column_name)"

definition special_columns :: "(string \<times> string) list" where
  \<comment> \<open>the audit and SCD columns, compared with the lower-cased name one after the other\<close>
  "special_columns =
    [(''adt_load_date'',
      ''Audit load date used for record identification across the data pipeline''),
     (''adt_file_source'',
      ''Audit file source used for record identification across the data pipeline''),
     (''adt_hash_key'',
      ''Hash key used for record identification across the data pipeline''),
     (''dbt_scd_id'',
      ''SCD type 2 identifier, used for tracking different versions of a each record''),
     (''dbt_updated_at'',
      ''SCD type 2 updated timestamp, indicating when the record was last modified''),
     (''dbt_valid_from'',
      ''SCD type 2 validity start timestamp, indicating since when the record was valid''),
     (''dbt_valid_to'',
      ''SCD type 2 validity end timestamp, indicating since when the record was valid''),
     (''record_sk'', ''Unique key identifier for each record'')]"

definition id_description :: "string \<Rightarrow> string \<Rightarrow> string" where
  "id_description column_name clean_name =
     (if re_search pk_rx (lower column_name) then ''Primary identifier for '' @ clean_name
      else if re_search fk_rx (lower column_name) then ''Foreign key reference to '' @ clean_name
      else ''Identifier for '' @ clean_name)"

definition date_description :: "string \<Rightarrow> string \<Rightarrow> string" where
  "date_description column_name clean_name =
     (let n = lower column_name
      in if str_in ''create'' n \<or> str_in ''insert'' n then ''Date when the record was created''
         else if str_in ''update'' n \<or> str_in ''modify'' n
         then ''Date when the record was last updated''
         else if str_in ''valid_from'' n then ''Date from which this record is valid''
         else if str_in ''valid_to'' n then ''Date until which this record is valid''
         else if str_in ''birth'' n then ''Date of birth''
         else ''Date associated with '' @ clean_name)"

definition amount_description :: "string \<Rightarrow> analysis \<Rightarrow> string" where
  "amount_description clean_name an =
     ''Monetary amount for '' @ clean_name @
     (case a_stats an of
        None \<Rightarrow> []
      | Some st \<Rightarrow> '' (ranges from '' @ fmt2 (st_min st) @ '' to '' @ fmt2 (st_max st) @ '')'')"

definition truthy :: "(string \<times> nat) list option \<Rightarrow> bool" where
  \<comment> \<open>the truth value of \<open>analysis['common_values']\<close>: neither None nor empty\<close>
  "truthy cv = (case cv of None \<Rightarrow> False | Some vs \<Rightarrow> vs \<noteq> [])"

definition flag_description :: "string \<Rightarrow> analysis \<Rightarrow> string" where
  "flag_description clean_name an =
     ''Flag indicating '' @ clean_name @
     (if truthy (a_common_values an)
      then '' (possible values: '' @ join '', '' (map fst (the (a_common_values an))) @ '')''
      else [])"

definition type_description :: "string \<Rightarrow> string \<Rightarrow> analysis \<Rightarrow> string" where
  "type_description data_type clean_name an =
     (let type_name = lower (takeWhile (\<lambda>c. c \<noteq> CHR ''('') data_type)
      in if str_in ''varchar'' type_name \<or> str_in ''char'' type_name
            \<or> str_in ''string'' type_name \<or> str_in ''text'' type_name
         then ''Text field containing '' @ clean_name @
              (if truthy (a_common_values an) \<and> length (the (a_common_values an)) \<le> 3
               then '' (e.g., '' @ join '', '' (map fst (the (a_common_values an))) @ '')''
               else [])
         else if str_in ''int'' type_name \<or> str_in ''number'' type_name
                 \<or> str_in ''decimal'' type_name \<or> str_in ''float'' type_name
         then ''Numeric value representing '' @ clean_name
         else if str_in ''date'' type_name \<or> str_in ''time'' type_name
         then ''Date/time value for '' @ clean_name
         else if str_in ''bool'' type_name then ''Boolean flag indicating '' @ clean_name
         else clean_name)"

definition describe :: "string \<Rightarrow> string \<Rightarrow> analysis \<Rightarrow> string" where
  "describe column_name data_type an =
     (let clean_name = clean_column_name column_name
      in if is_id_col column_name then id_description column_name clean_name
         else if is_date_col column_name then date_description column_name clean_name
         else if is_amount_col column_name then amount_description clean_name an
         else if is_count_col column_name then ''Count or quantity of '' @ clean_name
         else if is_flag_col column_name then flag_description clean_name an
         else case map_of special_columns (lower column_name) of
                Some description \<Rightarrow> description
              | None \<Rightarrow>
                  if data_type \<noteq> [] then type_description data_type clean_name an
                  else clean_name)"

definition generate_column_description :: "pyenv \<Rightarrow> string \<Rightarrow> string \<Rightarrow> pyval list \<Rightarrow> pyerror + string" where
  \<comment> \<open>the sample is analysed before any rule is tried, so an error of the analysis
      is the result whatever the name\<close>
  "generate_column_description env column_name data_type sample_data =
     (case analyze_sample_data env sample_data of
        Inl e \<Rightarrow> Inl e
      | Inr an \<Rightarrow> Inr (describe column_name data_type an))"

section \<open>Table descriptions\<close>

record column_info =
  ci_name :: string
  ci_type :: string
  ci_nullable :: string

record scan =
  has_id :: bool
  has_name :: bool
  has_date :: bool
  has_amount :: bool
  has_status :: bool
  important_columns :: "string list"

definition scan_init :: scan where
  "scan_init =
     \<lparr>has_id = False, has_name = False, has_date = False, has_amount = False,
      has_status = False, important_columns = []\<rparr>"

definition key_rx :: regex where
  \<comment> \<open>\<open>id$|^id|_id$|key$|^key|_key$\<close>\<close>
  "key_rx =
     [[Lit ''id'', Eol], [Bol, Lit ''id''], [Lit ''_id'', Eol],
      [Lit ''key'', Eol], [Bol, Lit ''key''], [Lit ''_key'', Eol]]"

definition keep :: "string \<Rightarrow> scan \<Rightarrow> scan" where
  \<comment> \<open>a fragment is appended when it is longer than two characters\<close>
  "keep e st =
     (if e \<noteq> [] \<and> 2 < length e then st\<lparr>important_columns := important_columns st @ [e]\<rparr>
      else st)"

definition scan_column :: "scan \<Rightarrow> column_info \<Rightarrow> scan" where
  \<comment> \<open>the body of the loop over the columns\<close>
  "scan_column st column =
     (let col_name = lower (ci_name column)
      in if re_search key_rx col_name \<and> \<not> str_in ''dbt_'' col_name \<and> \<not> str_in ''adt_'' col_name
         then (if col_name \<noteq> ''id''
               then keep (py_replace ''id_'' [] (py_replace ''_id'' [] col_name))
                      (st\<lparr>has_id := True\<rparr>)
               else st\<lparr>has_id := True\<rparr>)
         else if str_in ''name'' col_name
         then keep (py_replace ''name_'' [] (py_replace ''_name'' [] col_name))
                (st\<lparr>has_name := True\<rparr>)
         else if str_in ''date'' col_name \<and> \<not> str_in ''dbt_'' col_name \<and> \<not> str_in ''adt_'' col_name
         then (if col_name \<noteq> ''date''
               then keep (py_replace ''date_'' [] (py_replace ''_date'' [] col_name))
                      (st\<lparr>has_date := True\<rparr>)
               else st\<lparr>has_date := True\<rparr>)
         else if str_in ''amount'' col_name \<or> str_in ''_amt'' col_name
         then keep (py_replace ''amt_'' [] (py_replace ''_amt'' []
                      (py_replace ''amount_'' [] (py_replace ''_amount'' [] col_name))))
                (st\<lparr>has_amount := True\<rparr>)
         else if str_in ''status'' col_name \<or> str_in ''state'' col_name
         then st\<lparr>has_status := True\<rparr>
         else st)"

definition scan_columns :: "column_info list \<Rightarrow> scan" where
  "scan_columns columns = foldl scan_column scan_init columns"

definition base_sentence :: "pyenv \<Rightarrow> string \<Rightarrow> scan \<Rightarrow> string" where
  "base_sentence env clean_name st =
     (if important_columns st \<noteq> []
      then let entities = list_of_set env (filter (\<lambda>c. c \<noteq> []) (important_columns st))
           in if entities \<noteq> []
              then let readable_entities = map clean_column_name entities;
                       unique_entities = list_of_set env readable_entities
                   in if length unique_entities \<le> 3
                      then ''Contains information about '' @ join '', '' unique_entities
                      else ''Contains various information related to '' @ clean_name
              else ''Contains information related to '' @ clean_name
      else ''Contains information related to '' @ clean_name)"

definition details :: "scan \<Rightarrow> string list" where
  "details st =
     (if has_id st then [''identifiers''] else []) @
     (if has_name st then [''names''] else []) @
     (if has_date st then [''dates''] else []) @
     (if has_amount st then [''amounts''] else []) @
     (if has_status st then [''status information''] else [])"

definition details_clause :: "scan \<Rightarrow> string" where
  "details_clause st =
     (if details st \<noteq> []
      then (if length (details st) \<le> 3 then '' including '' @ join '', '' (details st)
            else '' including various attributes and metrics'')
      else [])"

definition generate_table_description :: "pyenv \<Rightarrow> string \<Rightarrow> column_info list \<Rightarrow> string" where
  "generate_table_description env table_name columns =
     (let clean_name = clean_column_name table_name;
          st = scan_columns columns
      in base_sentence env clean_name st @ details_clause st)"

section \<open>Notions used in the statements\<close>

definition found :: "atom list \<Rightarrow> string \<Rightarrow> bool" where
  \<comment> \<open>the sequence \<open>p\<close> matches at some position of \<open>s\<close>\<close>
  "found p s = (\<exists>u v. s = u @ v \<and> match_atoms p (rev u) v \<noteq> None)"

definition newline :: string where
  "newline = [CHR 0x0A]"

definition ends_with :: "string \<Rightarrow> string \<Rightarrow> bool" where
  \<comment> \<open>\<open>w$\<close>: \<open>s\<close> ends with \<open>w\<close>, or with \<open>w\<close> and a final newline\<close>
  "ends_with w s = (suffix w s \<or> suffix (w @ newline) s)"

fun split_on :: "char \<Rightarrow> string \<Rightarrow> string list" where
  "split_on c [] = [[]]"
| "split_on c (x # xs) =
     (if x = c then [] # split_on c xs
      else case split_on c xs of [] \<Rightarrow> [[x]] | s # ss \<Rightarrow> (x # s) # ss)"

definition spec_id_segment :: "string \<Rightarrow> bool" where
  \<comment> \<open>the identifier pattern in the words of the specification: \<open>id\<close> is one of the
      segments of the name between underscores\<close>
  "spec_id_segment column_name = (''id'' \<in> set (split_on CHR ''_'' (lower column_name)))"

definition spec_flag_name :: "string \<Rightarrow> bool" where
  \<comment> \<open>the flag pattern in the words of the specification\<close>
  "spec_flag_name column_name =
     (prefix ''is_'' (lower column_name) \<or> suffix ''_flag'' (lower column_name)
      \<or> suffix ''_flg'' (lower column_name))"

definition env0 :: pyenv where
  \<comment> \<open>a runtime for the examples: the extractor labels a text that mentions Apple as
      an organisation and finds nothing else\<close>
  "env0 =
     \<lparr>ner = (\<lambda>t. if str_in ''Apple'' t then [''ORG''] else []),
      float_repr = fmt2, decimal_str = (\<lambda>d. ''0''), float_mean = (\<lambda>xs. NaN),
      set_rank = length\<rparr>"

definition range_and_entities ::
  "pyerror + analysis \<Rightarrow> pyerror + ((pyfloat \<times> pyfloat) option \<times> (string \<times> nat) list)" where
  \<comment> \<open>the numeric range and the entity categories of a profile\<close>
  "range_and_entities r =
     map_sum id
       (\<lambda>a. (map_option (\<lambda>st. (st_min st, st_max st)) (a_stats a), a_entity_types a)) r"

definition col :: "string \<Rightarrow> column_info" where
  "col n = \<lparr>ci_name = n, ci_type = ''NUMBER(38,0)'', ci_nullable = ''Y''\<rparr>"

definition four_cols :: "column_info list" where
  "four_cols = [col ''user_id'', col ''item_id'', col ''shop_id'', col ''cart_id'']"

definition is_numeric :: "pyval \<Rightarrow> bool" where
  \<comment> \<open>an item of a numeric runtime category\<close>
  "is_numeric item = (type_name item \<in> set numeric_names)"

definition is_text :: "pyval \<Rightarrow> bool" where
  \<comment> \<open>an item whose category sends the analysis into the text branch\<close>
  "is_text item = (type_name item = ''str'' \<or> type_name item = ''string'')"

definition coercible :: "pyval \<Rightarrow> bool" where
  "coercible item = (is_numeric item \<and> \<not> isl (py_float item))"

fun coerced :: "pyval list \<Rightarrow> pyfloat list" where
  \<comment> \<open>the numeric items that convert, converted, in the order of the sample\<close>
  "coerced [] = []"
| "coerced (item # rest) =
     (if is_numeric item
      then (case py_float item of Inr f \<Rightarrow> f # coerced rest | Inl e \<Rightarrow> coerced rest)
      else coerced rest)"

fun float_le :: "pyfloat \<Rightarrow> pyfloat \<Rightarrow> bool" where
  \<comment> \<open>\<open>x <= y\<close> on doubles\<close>
  "float_le NaN y = False"
| "float_le x NaN = False"
| "float_le NegInf y = True"
| "float_le x NegInf = False"
| "float_le x PosInf = True"
| "float_le PosInf y = False"
| "float_le x y = (finite_value x \<le> finite_value y)"

definition least_of :: "pyfloat \<Rightarrow> pyfloat list \<Rightarrow> bool" where
  "least_of m xs = (m \<in> set xs \<and> list_all (\<lambda>x. float_le m x) xs)"

definition greatest_of :: "pyfloat \<Rightarrow> pyfloat list \<Rightarrow> bool" where
  "greatest_of m xs = (m \<in> set xs \<and> list_all (\<lambda>x. float_le x m) xs)"

definition add_types :: "string list \<Rightarrow> string list \<Rightarrow> string list" where
  \<comment> \<open>the set of type names after adding the names \<open>ns\<close> one by one\<close>
  "add_types ts ns = foldl (\<lambda>ts t. if t \<in> set ts then ts else ts @ [t]) ts ns"

definition names_and_strings :: "pyenv \<Rightarrow> pyval list \<Rightarrow> (string \<times> string) list" where
  \<comment> \<open>what the fields other than the numeric range are computed from\<close>
  "names_and_strings env data = map (\<lambda>item. (type_name item, py_str env item)) (not_none data)"

definition two_decimals :: "string \<Rightarrow> bool" where
  \<comment> \<open>an optional sign, one digit or more, a point and exactly two digits\<close>
  "two_decimals s =
     (let t = (case s of [] \<Rightarrow> [] | c # r \<Rightarrow> if c = CHR ''-'' then r else s)
      in takeWhile is_digit t \<noteq> [] \<and>
         (case dropWhile is_digit t of
            [d, x, y] \<Rightarrow> d = CHR ''.'' \<and> is_digit x \<and> is_digit y
          | _ \<Rightarrow> False))"

definition finite_float :: "pyfloat \<Rightarrow> bool" where
  "finite_float f = (f = NegZero \<or> (\<exists>q. f = Fin q))"

definition digit_value :: "char \<Rightarrow> nat" where
  \<comment> \<open>the place of a digit among the digits\<close>
  "digit_value c = length (takeWhile (\<lambda>d. d \<noteq> c) digits)"

fun read_digits :: "nat \<Rightarrow> string \<Rightarrow> nat" where
  "read_digits acc [] = acc"
| "read_digits acc (c # cs) =
     read_digits (if is_digit c then acc * 10 + digit_value c else acc) cs"

definition cents :: "string \<Rightarrow> nat" where
  \<comment> \<open>the digits of a string read as one number, the sign and the point passed over:
      the hundredths that a text with two decimals stands for\<close>
  "cents s = read_digits 0 s"

definition nearest_cents :: "nat \<Rightarrow> rat \<Rightarrow> bool" where
  \<comment> \<open>\<open>n\<close> hundredths are the magnitude of \<open>v\<close> rounded to the nearest hundredth, a tie
      going to the even one\<close>
  "nearest_cents n v =
     (\<bar>of_nat n - \<bar>v\<bar> * 100\<bar> \<le> 1 / 2
      \<and> (\<bar>of_nat n - \<bar>v\<bar> * 100\<bar> = 1 / 2 \<longrightarrow> even n))"

definition sample_text :: "pyenv \<Rightarrow> pyval list \<Rightarrow> string" where
  \<comment> \<open>the joined text that the entity extractor is given, before it is cut\<close>
  "sample_text env data = join '' '' (map (py_str env) (not_none data))"

definition text_type :: "string option \<Rightarrow> bool" where
  "text_type ty = (ty = Some ''str'' \<or> ty = Some ''string'')"

definition ranked :: "(string \<times> nat) list \<Rightarrow> bool" where
  \<comment> \<open>distinct values, by decreasing count\<close>
  "ranked cv = (distinct (map fst cv) \<and> sorted_wrt (\<lambda>x y. snd y \<le> snd x) cv)"

section \<open>Evaluation\<close>

lemmas str_defs =
  lower_def lower_char_def upper_char_def upper_letters_def lower_letters_def digits_def
  is_word_char_def word_before_def

lemmas rx_defs = re_search_def match_here_def

lemma match_word:
  "match_atoms [Wordb, Lit w, Wordb] b a =
     (if prefix w a
      then (if word_before b \<noteq> word_before a
               \<and> word_before (rev w @ b) \<noteq> word_before (drop (length w) a)
            then Some (rev w @ b, drop (length w) a) else None)
      else None)"
  by simp

lemmas clean_defs = clean_column_name_def abbreviations_def expand_def re_sub_def match_word

lemma floor_rat_numeral: "\<lfloor>(numeral a :: rat) / numeral b\<rfloor> = numeral a div numeral b"
  using floor_divide_of_int_eq[of "numeral a" "numeral b", where ?'a = rat] by simp

lemmas fmt_defs = round_half_even_def Let_def show_nat.simps digit_char_def digits_def floor_rat_numeral

section \<open>Regular expressions: what a search finds\<close>

lemma search_from_iff:
  "search_from rx b s \<longleftrightarrow> (\<exists>u v. s = u @ v \<and> match_here rx (rev u @ b) v)"
proof (induction s arbitrary: b)
  case Nil
  then show ?case by simp
next
  case (Cons c cs)
  show ?case
  proof
    assume "search_from rx b (c # cs)"
    then consider "match_here rx b (c # cs)" | "search_from rx (c # b) cs" by auto
    then show "\<exists>u v. c # cs = u @ v \<and> match_here rx (rev u @ b) v"
    proof cases
      case 1
      then have "c # cs = [] @ (c # cs) \<and> match_here rx (rev [] @ b) (c # cs)" by simp
      then show ?thesis by blast
    next
      case 2
      then obtain u v where "cs = u @ v" "match_here rx (rev u @ c # b) v"
        using Cons.IH by blast
      then have "c # cs = (c # u) @ v \<and> match_here rx (rev (c # u) @ b) v" by simp
      then show ?thesis by blast
    qed
  next
    assume "\<exists>u v. c # cs = u @ v \<and> match_here rx (rev u @ b) v"
    then obtain u v where uv: "c # cs = u @ v" "match_here rx (rev u @ b) v" by blast
    show "search_from rx b (c # cs)"
    proof (cases u)
      case Nil
      with uv have "v = c # cs" by simp
      with uv Nil have "match_here rx b (c # cs)" by simp
      then show ?thesis by simp
    next
      case (Cons d u')
      with uv have "cs = u' @ v" "match_here rx (rev u' @ c # b) v" by auto
      then have "search_from rx (c # b) cs" using Cons.IH by blast
      then show ?thesis by simp
    qed
  qed
qed

lemma re_search_iff: "re_search rx s \<longleftrightarrow> (\<exists>p\<in>set rx. found p s)"
proof -
  have "re_search rx s \<longleftrightarrow> (\<exists>u v. s = u @ v \<and> match_here rx (rev u) v)"
    using search_from_iff[of rx "[]" s] by (simp add: re_search_def)
  also have "\<dots> \<longleftrightarrow> (\<exists>p\<in>set rx. found p s)"
    unfolding match_here_def list_ex_iff found_def by blast
  finally show ?thesis .
qed

lemma match_lit_eol:
  "match_atoms [Lit w, Eol] b a \<noteq> None \<longleftrightarrow> a = w \<or> a = w @ newline"
  by (auto simp: prefix_def newline_def)

lemma found_lit_eol: "found [Lit w, Eol] s \<longleftrightarrow> ends_with w s"
proof -
  have "found [Lit w, Eol] s \<longleftrightarrow> (\<exists>u v. s = u @ v \<and> (v = w \<or> v = w @ newline))"
    unfolding found_def match_lit_eol by (rule refl)
  then show ?thesis unfolding ends_with_def suffix_def by blast
qed

lemma found_bol_lit: "found [Bol, Lit w] s \<longleftrightarrow> prefix w s"
proof -
  have m: "\<And>b a. match_atoms [Bol, Lit w] b a \<noteq> None \<longleftrightarrow> b = [] \<and> prefix w a" by simp
  show ?thesis unfolding found_def m by auto
qed

lemma str_in_iff: "str_in w s \<longleftrightarrow> (\<exists>u v. s = u @ v \<and> prefix w v)"
proof (induction s)
  case Nil
  then show ?case by auto
next
  case (Cons c cs)
  show ?case
  proof
    assume "str_in w (c # cs)"
    then consider "prefix w (c # cs)" | "str_in w cs" by auto
    then show "\<exists>u v. c # cs = u @ v \<and> prefix w v"
    proof cases
      case 1
      then have "c # cs = [] @ (c # cs) \<and> prefix w (c # cs)" by simp
      then show ?thesis by blast
    next
      case 2
      then obtain u v where "cs = u @ v" "prefix w v" using Cons.IH by blast
      then have "c # cs = (c # u) @ v \<and> prefix w v" by simp
      then show ?thesis by blast
    qed
  next
    assume "\<exists>u v. c # cs = u @ v \<and> prefix w v"
    then obtain u v where uv: "c # cs = u @ v" "prefix w v" by blast
    show "str_in w (c # cs)"
    proof (cases u)
      case Nil
      with uv have "v = c # cs" by simp
      with uv have "prefix w (c # cs)" by simp
      then show ?thesis by simp
    next
      case (Cons d u')
      with uv have "cs = u' @ v" by simp
      with uv(2) have "str_in w cs" using Cons.IH by blast
      then show ?thesis by simp
    qed
  qed
qed

lemma found_lit: "found [Lit w] s \<longleftrightarrow> str_in w s"
proof -
  have m: "\<And>b a. match_atoms [Lit w] b a \<noteq> None \<longleftrightarrow> prefix w a" by simp
  show ?thesis unfolding found_def m str_in_iff by blast
qed

lemma ends_with_Cons: "ends_with (c # w) s \<Longrightarrow> ends_with w s"
  by (auto simp: ends_with_def dest: suffix_ConsD)

lemma is_id_col_iff:
  "is_id_col n \<longleftrightarrow> prefix ''id'' (lower n) \<or> ends_with ''id'' (lower n)"
  unfolding is_id_col_def id_rx_def re_search_iff
  by (auto simp: found_lit_eol found_bol_lit dest: ends_with_Cons)

lemma is_flag_col_iff:
  "is_flag_col n \<longleftrightarrow>
     str_in ''is_'' (lower n) \<or> ends_with ''_flag'' (lower n) \<or> ends_with ''_flg'' (lower n)"
  unfolding is_flag_col_def flag_rx_def re_search_iff
  by (auto simp: found_lit_eol found_lit)

lemmas sfx_defs = ends_with_def newline_def suffix_to_prefix

section \<open>Cleaned names of the examples\<close>

lemma clean_dbt_scd_id:
  "clean_column_name ''dbt_scd_id'' = ''Dbt slowly changing dimension identifier''"
  by (simp add: clean_defs str_defs del: match_atoms.simps)

lemma clean_adt_load_date: "clean_column_name ''adt_load_date'' = ''Audit load date''"
  by (simp add: clean_defs str_defs del: match_atoms.simps)

lemma clean_is_valid: "clean_column_name ''is_valid'' = ''Is valid''"
  by (simp add: clean_defs str_defs del: match_atoms.simps)

lemma clean_sales: "clean_column_name ''sales'' = ''Sales''"
  by (simp add: clean_defs str_defs del: match_atoms.simps)

lemma clean_user: "clean_column_name ''user'' = ''User''"
  by (simp add: clean_defs str_defs del: match_atoms.simps)

lemma clean_item: "clean_column_name ''item'' = ''Item''"
  by (simp add: clean_defs str_defs del: match_atoms.simps)

lemma clean_shop: "clean_column_name ''shop'' = ''Shop''"
  by (simp add: clean_defs str_defs del: match_atoms.simps)

lemma clean_cart: "clean_column_name ''cart'' = ''Cart''"
  by (simp add: clean_defs str_defs del: match_atoms.simps)

section \<open>The identifier rule\<close>

lemma describe_id: "is_id_col n \<Longrightarrow> describe n t an = id_description n (clean_column_name n)"
  by (simp add: describe_def)

lemma is_id_col_is_valid: "is_id_col ''is_valid''"
  by (simp add: is_id_col_iff sfx_defs str_defs)

text \<open>
  C1 (the code departs from the claim). The column \<open>dbt_scd_id\<close> ends in \<open>id\<close>, so the
  identifier rule, which the source tries first, answers for it, and the fixed sentence of
  the SCD identifier is never produced; \<open>adt_load_date\<close> and \<open>dbt_updated_at\<close> are
  answered by the date rule in the same way.
\<close>

theorem C1_metadata_names_taken_by_earlier_rules:
  "generate_column_description env ''dbt_scd_id'' ''NUMBER'' [] =
     Inr ''Identifier for Dbt slowly changing dimension identifier''
   \<and> generate_column_description env ''adt_load_date'' ''DATE'' [] =
     Inr ''Date associated with Audit load date''
   \<and> generate_column_description env ''dbt_updated_at'' ''TIMESTAMP_NTZ'' [] =
     Inr ''Date when the record was last updated''"
proof -
  have a: "is_id_col ''dbt_scd_id''"
    by (simp add: is_id_col_iff sfx_defs str_defs)
  have b: "\<not> is_id_col ''adt_load_date''" "is_date_col ''adt_load_date''"
    by (simp_all add: is_id_col_iff is_date_col_def sfx_defs str_defs)
  have c: "\<not> is_id_col ''dbt_updated_at''" "is_date_col ''dbt_updated_at''"
    by (simp_all add: is_id_col_iff is_date_col_def sfx_defs str_defs)
  have 1: "describe ''dbt_scd_id'' ''NUMBER'' empty_analysis =
      ''Identifier for Dbt slowly changing dimension identifier''"
    using a by (simp add: describe_def id_description_def pk_rx_def fk_rx_def rx_defs
        clean_dbt_scd_id str_defs)
  have 2: "describe ''adt_load_date'' ''DATE'' empty_analysis =
      ''Date associated with Audit load date''"
    using b by (simp add: describe_def date_description_def clean_adt_load_date str_defs)
  have 3: "describe ''dbt_updated_at'' ''TIMESTAMP_NTZ'' empty_analysis =
      ''Date when the record was last updated''"
    using c by (simp add: describe_def date_description_def str_defs)
  show ?thesis
    by (simp add: generate_column_description_def analyze_sample_data_def 1 2 3)
qed

text \<open>
  C4 (amended). The identifier rule applies exactly when the lower-cased name starts with
  \<open>id\<close> or ends with \<open>id\<close> (a final newline after it is allowed), whatever precedes or
  follows these two letters; it is the first rule of the chain, so it then gives the
  description.
\<close>

theorem C4_identifier_rule_is_prefix_or_suffix:
  "(is_id_col n \<longleftrightarrow> prefix ''id'' (lower n) \<or> ends_with ''id'' (lower n))
   \<and> (is_id_col n \<longrightarrow> describe n t an = id_description n (clean_column_name n))"
  using is_id_col_iff describe_id by blast

theorem C4_witness:
  "is_id_col ''is_valid'' \<and> describe ''is_valid'' ''BOOLEAN'' empty_analysis = ''Identifier for Is valid''"
proof -
  have "id_description ''is_valid'' ''Is valid'' = ''Identifier for Is valid''"
    by (simp add: id_description_def pk_rx_def fk_rx_def rx_defs str_defs)
  then show ?thesis
    using C4_identifier_rule_is_prefix_or_suffix[of "''is_valid''" "''BOOLEAN''" empty_analysis]
      is_id_col_is_valid
    by (simp add: clean_is_valid)
qed

text \<open>
  The claim as stated fails in both directions: \<open>is_valid\<close> has no segment \<open>id\<close> and
  triggers the rule, \<open>customer_id_number\<close> has one and does not.
\<close>

theorem C4_counterexample:
  "is_id_col ''is_valid'' \<and> \<not> spec_id_segment ''is_valid''
   \<and> \<not> is_id_col ''customer_id_number'' \<and> spec_id_segment ''customer_id_number''"
  by (simp add: is_id_col_iff sfx_defs spec_id_segment_def str_defs)

section \<open>The scan of a table's columns\<close>

lemma length_list_of_set: "length (list_of_set env xs) = card (set xs)"
  by (simp add: list_of_set_def length_remdups_card_conv)

lemma set_list_of_set: "set (list_of_set env xs) = set xs"
  by (simp add: list_of_set_def)

lemma keep_nonempty:
  "[] \<notin> set (important_columns st) \<Longrightarrow> [] \<notin> set (important_columns (keep e st))"
  by (auto simp: keep_def)

lemma scan_column_nonempty:
  assumes "[] \<notin> set (important_columns st)"
  shows "[] \<notin> set (important_columns (scan_column st c))"
proof -
  have k: "\<And>e s. important_columns s = important_columns st \<Longrightarrow>
      [] \<notin> set (important_columns (keep e s))"
    using assms by (auto simp: keep_def)
  show ?thesis
    unfolding scan_column_def Let_def using assms by (simp add: k)
qed

lemma foldl_scan_nonempty:
  "[] \<notin> set (important_columns st) \<Longrightarrow>
   [] \<notin> set (important_columns (foldl scan_column st cs))"
  by (induction cs arbitrary: st) (simp_all add: scan_column_nonempty)

lemma scan_columns_nonempty: "[] \<notin> set (important_columns (scan_columns cs))"
  by (simp add: scan_columns_def foldl_scan_nonempty scan_init_def)

lemma base_sentence_many:
  assumes "[] \<notin> set (important_columns st)"
    and "3 < card (clean_column_name ` set (important_columns st))"
  shows "base_sentence env c st = ''Contains various information related to '' @ c"
proof -
  have ne: "important_columns st \<noteq> []"
    using assms(2) by auto
  have f: "filter (\<lambda>c. c \<noteq> []) (important_columns st) = important_columns st"
    using assms(1) by (simp add: filter_id_conv) metis
  have e: "list_of_set env (important_columns st) \<noteq> []"
    using ne set_list_of_set[of env "important_columns st"] by (metis set_empty)
  have l: "length (list_of_set env (map clean_column_name (list_of_set env (important_columns st))))
      = card (clean_column_name ` set (important_columns st))"
    by (simp add: length_list_of_set set_list_of_set)
  have "\<not> length (list_of_set env (map clean_column_name (list_of_set env (important_columns st)))) \<le> 3"
    using l assms(2) by simp
  then show ?thesis
    unfolding base_sentence_def Let_def f using ne e by simp
qed

lemma scan_four:
  "scan_columns four_cols =
     scan_init\<lparr>has_id := True, important_columns := [''user'', ''item'', ''shop'', ''cart'']\<rparr>"
  by (simp add: four_cols_def scan_columns_def scan_column_def col_def keep_def key_rx_def
      scan_init_def rx_defs str_defs)

lemma four_entities:
  "3 < card (clean_column_name ` set (important_columns (scan_columns four_cols)))"
  by (simp add: scan_four scan_init_def clean_user clean_item clean_shop clean_cart)

lemma four_details: "details_clause (scan_columns four_cols) = '' including identifiers''"
  by (simp add: scan_four scan_init_def details_clause_def details_def)

text \<open>
  C3 (amended). When the columns yield more than three distinct cleaned entity names,
  the description starts with the sentence
  \<open>Contains various information related to\<close> and the cleaned table name, followed by the
  details clause.
\<close>

theorem C3_many_entities_various_information:
  assumes "3 < card (clean_column_name ` set (important_columns (scan_columns columns)))"
  shows "generate_table_description env t columns =
     ''Contains various information related to '' @ clean_column_name t
       @ details_clause (scan_columns columns)"
  by (simp add: generate_table_description_def Let_def
      base_sentence_many[OF scan_columns_nonempty assms])

theorem C3_witness:
  "3 < card (clean_column_name ` set (important_columns (scan_columns four_cols)))
   \<and> generate_table_description env0 ''sales'' four_cols =
      ''Contains various information related to Sales including identifiers''"
  using four_entities
    C3_many_entities_various_information[OF four_entities, of env0 "''sales''"]
  by (simp add: four_details clean_sales)

text \<open>
  The sentence of the claim, \<open>Contains information related to\<close> the table, is not what
  the source keeps for four entities.
\<close>

theorem C3_counterexample:
  "important_columns (scan_columns four_cols) = [''user'', ''item'', ''shop'', ''cart'']
   \<and> \<not> prefix ''Contains information related to Sales''
        (generate_table_description env0 ''sales'' four_cols)"
proof -
  have "base_sentence env0 ''Sales'' (scan_columns four_cols) =
      ''Contains various information related to Sales''"
    using base_sentence_many[OF scan_columns_nonempty four_entities] by simp
  then have "generate_table_description env0 ''sales'' four_cols =
      ''Contains various information related to Sales including identifiers''"
    by (simp add: generate_table_description_def Let_def clean_sales four_details)
  then show ?thesis
    by (simp add: scan_four scan_init_def)
qed

lemma keep_fields:
  "has_id (keep e s) = has_id s" "has_name (keep e s) = has_name s"
  "has_date (keep e s) = has_date s" "has_amount (keep e s) = has_amount s"
  "has_status (keep e s) = has_status s"
  by (simp_all add: keep_def)

lemma scan_column_excluded:
  assumes "str_in ''dbt_'' (lower (ci_name c)) \<or> str_in ''adt_'' (lower (ci_name c))"
  shows "scan_column st c =
     (if str_in ''name'' (lower (ci_name c))
      then keep (py_replace ''name_'' [] (py_replace ''_name'' [] (lower (ci_name c))))
             (st\<lparr>has_name := True\<rparr>)
      else if str_in ''amount'' (lower (ci_name c)) \<or> str_in ''_amt'' (lower (ci_name c))
      then keep (py_replace ''amt_'' [] (py_replace ''_amt'' []
                   (py_replace ''amount_'' [] (py_replace ''_amount'' [] (lower (ci_name c))))))
             (st\<lparr>has_amount := True\<rparr>)
      else if str_in ''status'' (lower (ci_name c)) \<or> str_in ''state'' (lower (ci_name c))
      then st\<lparr>has_status := True\<rparr>
      else st)"
proof -
  have x: "(\<not> str_in ''dbt_'' (lower (ci_name c)) \<and> \<not> str_in ''adt_'' (lower (ci_name c))) = False"
    using assms by blast
  show ?thesis
    unfolding scan_column_def Let_def by (simp only: x simp_thms if_False)
qed

text \<open>
  C6 (amended). A column whose lower-cased name contains \<open>dbt_\<close> or \<open>adt_\<close> is never
  counted as an identifier or a date and gives no identifier or date fragment. The checks
  for names, amounts and status have no such exclusion: only when the name contains none
  of their keys is the column left out of every bucket, as the seven known pipeline
  columns are.
\<close>

theorem C6_metadata_excluded_from_id_and_date:
  assumes "str_in ''dbt_'' (lower (ci_name c)) \<or> str_in ''adt_'' (lower (ci_name c))"
  shows "has_id (scan_column st c) = has_id st \<and> has_date (scan_column st c) = has_date st
     \<and> (\<not> str_in ''name'' (lower (ci_name c)) \<and> \<not> str_in ''amount'' (lower (ci_name c))
          \<and> \<not> str_in ''_amt'' (lower (ci_name c))
        \<longrightarrow> important_columns (scan_column st c) = important_columns st
            \<and> (\<not> str_in ''status'' (lower (ci_name c)) \<and> \<not> str_in ''state'' (lower (ci_name c))
               \<longrightarrow> scan_column st c = st))"
proof -
  have 1: "has_id (scan_column st c) = has_id st"
    by (simp add: scan_column_excluded[OF assms] keep_fields)
  have 2: "has_date (scan_column st c) = has_date st"
    by (simp add: scan_column_excluded[OF assms] keep_fields)
  have 3: "important_columns (scan_column st c) = important_columns st"
    if "\<not> str_in ''name'' (lower (ci_name c))" "\<not> str_in ''amount'' (lower (ci_name c))"
      "\<not> str_in ''_amt'' (lower (ci_name c))"
    using that by (simp add: scan_column_excluded[OF assms])
  have 4: "scan_column st c = st"
    if "\<not> str_in ''name'' (lower (ci_name c))" "\<not> str_in ''amount'' (lower (ci_name c))"
      "\<not> str_in ''_amt'' (lower (ci_name c))" "\<not> str_in ''status'' (lower (ci_name c))"
      "\<not> str_in ''state'' (lower (ci_name c))"
    using that by (simp add: scan_column_excluded[OF assms])
  show ?thesis using 1 2 3 4 by blast
qed

theorem C6_witness:
  "(str_in ''dbt_'' (lower (ci_name (col ''adt_load_date'')))
      \<or> str_in ''adt_'' (lower (ci_name (col ''adt_load_date''))))
   \<and> scan_column scan_init (col ''adt_load_date'') = scan_init"
proof -
  have l: "lower (ci_name (col ''adt_load_date'')) = ''adt_load_date''"
    by (simp add: col_def str_defs)
  have h: "str_in ''dbt_'' (lower (ci_name (col ''adt_load_date'')))
      \<or> str_in ''adt_'' (lower (ci_name (col ''adt_load_date'')))"
    unfolding l by simp
  have n: "\<not> str_in ''name'' (lower (ci_name (col ''adt_load_date'')))"
      "\<not> str_in ''amount'' (lower (ci_name (col ''adt_load_date'')))"
      "\<not> str_in ''_amt'' (lower (ci_name (col ''adt_load_date'')))"
      "\<not> str_in ''status'' (lower (ci_name (col ''adt_load_date'')))"
      "\<not> str_in ''state'' (lower (ci_name (col ''adt_load_date'')))"
    unfolding l by simp_all
  show ?thesis
    using h n C6_metadata_excluded_from_id_and_date[OF h, of scan_init] by blast
qed

text \<open>
  A column with the prefix \<open>adt_\<close> and the key \<open>name\<close> is counted in the name bucket and
  gives a fragment.
\<close>

theorem C6_counterexample:
  "prefix ''adt_'' (lower (ci_name (col ''adt_file_name'')))
   \<and> scan_column scan_init (col ''adt_file_name'') =
       scan_init\<lparr>has_name := True, important_columns := [''adt_file'']\<rparr>"
  by (simp add: scan_column_def col_def keep_def key_rx_def scan_init_def rx_defs str_defs)

section \<open>The loop of the analyzer\<close>

lemma not_none_idem: "not_none (not_none data) = not_none data"
  by (simp add: not_none_def)

lemma collect_not_none: "collect (not_none data) ts ns = collect data ts ns"
proof (induction data arbitrary: ts ns)
  case Nil
  then show ?case by (simp add: not_none_def)
next
  case (Cons item rest)
  show ?case
  proof (cases "item = PNone")
    case True
    then show ?thesis using Cons.IH by (simp add: not_none_def)
  next
    case False
    then have n: "not_none (item # rest) = item # not_none rest" by (simp add: not_none_def)
    show ?thesis
      unfolding n using False Cons.IH[unfolded not_none_def] 
      by (simp add: Let_def not_none_def split: sum.splits)
  qed
qed

lemma py_float_numeric_error:
  "py_float item = Inl e \<Longrightarrow> e = ValueError \<or> e = TypeError \<or> e = OverflowError"
proof (cases item)
  case (PInt i)
  assume "py_float item = Inl e"
  then show ?thesis using PInt by (simp split: pyfloat.splits)
next
  case (PDecimal d)
  assume "py_float item = Inl e"
  then show ?thesis using PDecimal by (cases d) auto
qed auto

lemma collect_numbers:
  "collect data ts ns = Inr (ts', ns') \<Longrightarrow> ns' = ns @ coerced data"
proof (induction data arbitrary: ts ns)
  case Nil
  then show ?case by simp
next
  case (Cons item rest)
  show ?case
  proof (cases "item = PNone")
    case True
    then have "collect rest ts ns = Inr (ts', ns')" using Cons.prems by simp
    then have "ns' = ns @ coerced rest" by (rule Cons.IH)
    then show ?thesis using True by (simp add: is_numeric_def numeric_names_def)
  next
    case False
    define ts1 where "ts1 = (if type_name item \<in> set ts then ts else ts @ [type_name item])"
    show ?thesis
    proof (cases "is_numeric item")
      case num: True
      show ?thesis
      proof (cases "py_float item")
        case (Inl e)
        then have "collect rest ts1 ns = Inr (ts', ns')"
          using Cons.prems False num
          by (simp add: Let_def is_numeric_def ts1_def split: if_splits)
        then have "ns' = ns @ coerced rest" by (rule Cons.IH)
        then show ?thesis using num Inl by simp
      next
        case (Inr f)
        then have "collect rest ts1 (ns @ [f]) = Inr (ts', ns')"
          using Cons.prems False num by (simp add: Let_def is_numeric_def ts1_def)
        then have "ns' = (ns @ [f]) @ coerced rest" by (rule Cons.IH)
        then show ?thesis using num Inr by simp
      qed
    next
      case nonnum: False
      then have "collect rest ts1 ns = Inr (ts', ns')"
        using Cons.prems False by (simp add: Let_def is_numeric_def ts1_def)
      then have "ns' = ns @ coerced rest" by (rule Cons.IH)
      then show ?thesis using nonnum by simp
    qed
  qed
qed

lemma collect_types:
  "collect data ts ns = Inr (ts', ns') \<Longrightarrow> ts' = add_types ts (map type_name (not_none data))"
proof (induction data arbitrary: ts ns)
  case Nil
  then show ?case by (simp add: add_types_def not_none_def)
next
  case (Cons item rest)
  show ?case
  proof (cases "item = PNone")
    case True
    then have "collect rest ts ns = Inr (ts', ns')" using Cons.prems by simp
    then have "ts' = add_types ts (map type_name (not_none rest))" by (rule Cons.IH)
    then show ?thesis using True by (simp add: not_none_def)
  next
    case False
    define ts1 where "ts1 = (if type_name item \<in> set ts then ts else ts @ [type_name item])"
    have n: "add_types ts (map type_name (not_none (item # rest))) =
        add_types ts1 (map type_name (not_none rest))"
      using False by (simp add: add_types_def not_none_def ts1_def)
    obtain ns1 where "collect rest ts1 ns1 = Inr (ts', ns')"
      using Cons.prems False
      by (auto simp: Let_def ts1_def split: if_splits sum.splits)
    then have "ts' = add_types ts1 (map type_name (not_none rest))" by (rule Cons.IH)
    then show ?thesis using n by simp
  qed
qed

lemma set_add_types: "set (add_types ts ns) = set ts \<union> set ns"
  unfolding add_types_def by (induction ns arbitrary: ts) auto

lemma coerced_coercible: "coerced data \<noteq> [] \<longleftrightarrow> list_ex coercible data"
  by (induction data) (auto simp: coercible_def split: sum.splits)

lemma coerced_not_none: "coerced (not_none data) = coerced data"
  by (induction data) (auto simp: not_none_def is_numeric_def numeric_names_def split: sum.splits)

section \<open>Counters and the predominant type\<close>

lemma counter_add_keys: "fst ` set (counter_add x c) = insert x (fst ` set c)"
  by (induction c) auto

lemma foldl_counter_keys:
  "fst ` set (foldl (\<lambda>c x. counter_add x c) c xs) = fst ` set c \<union> set xs"
  by (induction xs arbitrary: c) (auto simp: counter_add_keys)

lemma counter_keys: "fst ` set (counter xs) = set xs"
  by (simp add: counter_def foldl_counter_keys)

lemma counter_add_distinct:
  "distinct (map fst c) \<Longrightarrow> distinct (map fst (counter_add x c))"
proof (induction c)
  case Nil
  then show ?case by simp
next
  case (Cons yn c)
  have "fst ` set (counter_add x c) = insert x (fst ` set c)" by (rule counter_add_keys)
  then show ?case using Cons by auto
qed

lemma foldl_counter_distinct:
  "distinct (map fst c) \<Longrightarrow> distinct (map fst (foldl (\<lambda>c x. counter_add x c) c xs))"
  by (induction xs arbitrary: c) (simp_all add: counter_add_distinct)

lemma counter_distinct: "distinct (map fst (counter xs))"
  by (simp add: counter_def foldl_counter_distinct)

lemma counter_nonempty: "xs \<noteq> [] \<Longrightarrow> counter xs \<noteq> []"
  using counter_keys[of xs] by (cases "counter xs") auto

lemma most_common_subset: "set (most_common n c) \<subseteq> set c"
  unfolding most_common_def using set_take_subset[of n "sort_key (\<lambda>vc. - int (snd vc)) c"]
  by simp

lemma most_common_ranked:
  assumes "distinct (map fst c)"
  shows "ranked (most_common n c)"
proof -
  let ?k = "\<lambda>vc :: string \<times> nat. - int (snd vc)"
  let ?s = "sort_key ?k c"
  have d: "distinct (map fst ?s)"
    using assms by (simp add: distinct_map)
  have "sorted (map ?k ?s)" by (rule sorted_sort_key)
  then have s: "sorted_wrt (\<lambda>x y. snd y \<le> snd x) ?s"
    by (simp add: sorted_wrt_map)
  have "distinct (map fst (take n ?s))"
    using d by (simp add: take_map[symmetric] distinct_take del: take_map)
  moreover have "sorted_wrt (\<lambda>x y. snd y \<le> snd x) (take n ?s)"
    using s by (rule sorted_wrt_take)
  ultimately show ?thesis by (simp add: ranked_def most_common_def)
qed

lemma predominant_type_in:
  assumes "predominant_type ts data = Inr (Some t)"
    and "set ts = set (map type_name (not_none data))"
  shows "t \<in> set (map type_name (not_none data))"
proof (cases "length ts = 1")
  case True
  then obtain u where "ts = [u]" by (cases ts) auto
  then show ?thesis using assms by (auto simp: predominant_type_def)
next
  case False
  let ?c = "counter (map type_name (not_none data))"
  from False assms(1) obtain tc rest where mc: "most_common 1 ?c = tc # rest" and t: "t = fst tc"
    by (auto simp: predominant_type_def split: if_splits list.splits)
  have "tc \<in> set ?c" using mc most_common_subset[of 1 ?c] by auto
  then have "fst tc \<in> fst ` set ?c" by (rule imageI)
  then show ?thesis using t counter_keys[of "map type_name (not_none data)"] by simp
qed

lemma analyze_text_stats: "a_stats (analyze_text env data an) = a_stats an"
  by (simp add: analyze_text_def Let_def)

lemma analyze_text_not_none: "analyze_text env (not_none data) an = analyze_text env data an"
  by (simp add: analyze_text_def not_none_idem)

lemma predominant_type_not_none:
  "predominant_type ts (not_none data) = predominant_type ts data"
  by (simp add: predominant_type_def not_none_idem)

section \<open>The analyzer and null items\<close>

lemma analyze_all_none:
  assumes "not_none data = []"
  shows "analyze_sample_data env data = Inr empty_analysis"
proof (cases "data = []")
  case True
  then show ?thesis by (simp add: analyze_sample_data_def)
next
  case False
  have "collect data [] [] = collect [] [] []"
    using collect_not_none[of data "[]" "[]"] assms by simp
  then have c: "collect data [] [] = Inr ([], [])" by simp
  have p: "predominant_type [] data = Inr None" by (simp add: predominant_type_def)
  show ?thesis
    using False by (simp add: analyze_sample_data_def c p empty_analysis_def number_stats_def)
qed

text \<open>
  C10. The analysis of a sample is the analysis of the sample without its null items, be
  it a profile or an error: the nulls count in no field and raise nothing.
\<close>

theorem C10_nulls_are_skipped:
  "analyze_sample_data env data =
     analyze_sample_data env (filter (\<lambda>item. item \<noteq> PNone) data)"
proof (cases "not_none data = []")
  case True
  then have "analyze_sample_data env data = Inr empty_analysis" by (rule analyze_all_none)
  moreover have "analyze_sample_data env (not_none data) = Inr empty_analysis"
    using True by (simp add: analyze_sample_data_def)
  ultimately show ?thesis by (simp add: not_none_def)
next
  case False
  then have d: "data \<noteq> []" by (auto simp: not_none_def)
  have "analyze_sample_data env (not_none data) = analyze_sample_data env data"
    unfolding analyze_sample_data_def collect_not_none predominant_type_not_none
      analyze_text_not_none
    using False d by simp
  then show ?thesis by (simp add: not_none_def)
qed

section \<open>The profile of a sample\<close>

lemma analyze_Inr:
  assumes "analyze_sample_data env data = Inr a" and "data \<noteq> []"
  obtains ts ns ty where "collect data [] [] = Inr (ts, ns)"
    and "predominant_type ts data = Inr ty"
    and "a = (if ty = Some ''str'' \<or> ty = Some ''string''
              then analyze_text env data
                     (empty_analysis\<lparr>a_type := ty, a_stats := number_stats env ns\<rparr>)
              else empty_analysis\<lparr>a_type := ty, a_stats := number_stats env ns\<rparr>)"
proof -
  from assms obtain ts ns where c: "collect data [] [] = Inr (ts, ns)"
    by (cases "collect data [] []") (auto simp: analyze_sample_data_def)
  from assms c obtain ty where p: "predominant_type ts data = Inr ty"
    by (cases "predominant_type ts data") (auto simp: analyze_sample_data_def)
  from assms c p have "a = (if ty = Some ''str'' \<or> ty = Some ''string''
              then analyze_text env data
                     (empty_analysis\<lparr>a_type := ty, a_stats := number_stats env ns\<rparr>)
              else empty_analysis\<lparr>a_type := ty, a_stats := number_stats env ns\<rparr>)"
    by (auto simp: analyze_sample_data_def Let_def)
  with c p show thesis by (rule that)
qed

lemma analyze_stats:
  assumes "analyze_sample_data env data = Inr a"
  shows "a_stats a = number_stats env (coerced data)"
proof (cases "data = []")
  case True
  then show ?thesis
    using assms by (auto simp: analyze_sample_data_def empty_analysis_def number_stats_def)
next
  case False
  from assms False obtain ts ns ty where c: "collect data [] [] = Inr (ts, ns)"
    and a: "a = (if ty = Some ''str'' \<or> ty = Some ''string''
              then analyze_text env data
                     (empty_analysis\<lparr>a_type := ty, a_stats := number_stats env ns\<rparr>)
              else empty_analysis\<lparr>a_type := ty, a_stats := number_stats env ns\<rparr>)"
    by (rule analyze_Inr)
  have "ns = coerced data" using collect_numbers[OF c] by simp
  then show ?thesis using a by (simp add: analyze_text_stats)
qed

lemma number_stats_None: "number_stats env ns = None \<longleftrightarrow> ns = []"
  by (cases ns) (simp_all add: number_stats_def)

lemma analyze_text_type: "a_type (analyze_text env d an) = a_type an"
  by (simp add: analyze_text_def Let_def)

lemma counter_Nil: "counter [] = []"
  by (simp add: counter_def)

lemma most_common_nonempty: "c \<noteq> [] \<Longrightarrow> 0 < n \<Longrightarrow> most_common n c \<noteq> []"
proof -
  assume c: "c \<noteq> []" and n: "0 < n"
  have "length (sort_key (\<lambda>vc. - int (snd vc)) c) = length c" by (rule length_sort)
  then have "sort_key (\<lambda>vc. - int (snd vc)) c \<noteq> []" using c by (metis length_0_conv)
  then show ?thesis using n by (simp add: most_common_def)
qed

lemma analyze_text_entities:
  assumes "a_entity_types an = []"
  shows "a_entity_types (analyze_text env d an) \<noteq> [] \<longleftrightarrow>
     sample_text env d \<noteq> [] \<and> ner env (take 10000 (sample_text env d)) \<noteq> []"
proof (cases "sample_text env d = []")
  case True
  then show ?thesis using assms by (simp add: analyze_text_def sample_text_def Let_def)
next
  case False
  show ?thesis
  proof (cases "ner env (take 10000 (sample_text env d)) = []")
    case True
    then show ?thesis
      using assms False by (simp add: analyze_text_def sample_text_def Let_def counter_Nil)
  next
    case ents: False
    then have "counter (ner env (take 10000 (sample_text env d))) \<noteq> []"
      by (rule counter_nonempty)
    then show ?thesis
      using False ents
      by (simp add: analyze_text_def sample_text_def Let_def most_common_nonempty)
  qed
qed

lemma analyze_entities:
  assumes "analyze_sample_data env data = Inr a"
  shows "a_entity_types a \<noteq> [] \<longleftrightarrow>
     text_type (a_type a) \<and> sample_text env data \<noteq> []
     \<and> ner env (take 10000 (sample_text env data)) \<noteq> []"
proof (cases "data = []")
  case True
  then have "a = empty_analysis" using assms by (simp add: analyze_sample_data_def)
  then show ?thesis by (simp add: empty_analysis_def text_type_def)
next
  case False
  from assms False obtain ts ns ty where
    a: "a = (if ty = Some ''str'' \<or> ty = Some ''string''
              then analyze_text env data
                     (empty_analysis\<lparr>a_type := ty, a_stats := number_stats env ns\<rparr>)
              else empty_analysis\<lparr>a_type := ty, a_stats := number_stats env ns\<rparr>)"
    by (rule analyze_Inr)
  have b: "a_entity_types (empty_analysis\<lparr>a_type := ty, a_stats := number_stats env ns\<rparr>) = []"
    by (simp add: empty_analysis_def)
  show ?thesis
  proof (cases "ty = Some ''str'' \<or> ty = Some ''string''")
    case True
    then have "a = analyze_text env data
        (empty_analysis\<lparr>a_type := ty, a_stats := number_stats env ns\<rparr>)"
      using a by simp
    moreover have "text_type ty" using True by (simp add: text_type_def)
    ultimately show ?thesis
      using analyze_text_entities[OF b, of env data] by (simp add: analyze_text_type)
  next
    case False
    then have "a = empty_analysis\<lparr>a_type := ty, a_stats := number_stats env ns\<rparr>"
      using a by simp
    then show ?thesis using False b by (simp add: text_type_def)
  qed
qed

text \<open>
  C2 (amended). The profile has both the numeric range and the entity categories exactly
  when the predominant type is text, some numeric item converts to a float, and the
  extractor finds an entity in the joined text, which is not empty. So a sample whose
  predominant type is not text, or in which no numeric item converts, never has both.
\<close>

theorem C2_range_and_entities_both_iff_text_with_number:
  assumes "analyze_sample_data env data = Inr a"
  shows "(a_stats a \<noteq> None \<and> a_entity_types a \<noteq> []) \<longleftrightarrow>
     (text_type (a_type a) \<and> list_ex coercible data \<and> sample_text env data \<noteq> []
      \<and> ner env (take 10000 (sample_text env data)) \<noteq> [])"
proof -
  have "a_stats a \<noteq> None \<longleftrightarrow> list_ex coercible data"
    using analyze_stats[OF assms] by (simp add: number_stats_None coerced_coercible)
  then show ?thesis using analyze_entities[OF assms] by blast
qed

lemmas analyze_defs =
  analyze_sample_data_def Let_def numeric_names_def predominant_type_def number_stats_def
  analyze_text_def not_none_def counter_def most_common_def env0_def empty_analysis_def
  py_min_def py_max_def

lemma py_float_small:
  "py_float (PInt 1) = Inr (Fin 1)" "py_float (PInt 2) = Inr (Fin 2)"
  "py_float (PInt 5) = Inr (Fin 5)"
  by code_simp+

lemmas py_float_5 = py_float_small(3)

lemma numbers_and_text_sample:
  "analyze_sample_data env0 [PInt 1, PInt 2, PStr ''Apple Inc''] =
     Inr \<lparr>a_type = Some ''int'', a_common_values = None, a_patterns = [],
          a_entity_types = [],
          a_stats = Some \<lparr>st_min = Fin 1, st_max = Fin 2, st_avg = NaN\<rparr>\<rparr>"
  by (simp add: analyze_defs py_float_small del: py_float.simps(1))

theorem C2_witness:
  "range_and_entities (analyze_sample_data env0 [PInt 1, PInt 2, PStr ''Apple Inc'']) =
     Inr (Some (Fin 1, Fin 2), [])
   \<and> \<not> (text_type (Some ''int'') \<and> list_ex coercible [PInt 1, PInt 2, PStr ''Apple Inc'']
        \<and> sample_text env0 [PInt 1, PInt 2, PStr ''Apple Inc''] \<noteq> []
        \<and> ner env0 (take 10000 (sample_text env0 [PInt 1, PInt 2, PStr ''Apple Inc''])) \<noteq> [])"
  using C2_range_and_entities_both_iff_text_with_number[OF numbers_and_text_sample]
  by (simp add: range_and_entities_def numbers_and_text_sample)

text \<open>
  A text column with one numeric item: the range and the entity categories are both
  filled.
\<close>

theorem C2_counterexample:
  "range_and_entities (analyze_sample_data env0 [PStr ''Apple Inc'', PInt 5]) =
     Inr (Some (Fin 5, Fin 5), [(''ORG'', 1)])"
  by (simp add: range_and_entities_def analyze_defs py_float_5 show_int_def fmt_defs
      del: py_float.simps)

section \<open>Integers beyond the range of a double\<close>

lemma bitlen_one: "bitlen 1 = 1"
  by (simp add: bitlen_alt_def)

lemma py_float_overflow:
  assumes "2 ^ 1024 \<le> i"
  shows "py_float (PInt i) = Inl OverflowError"
proof -
  have "(0::int) < 2 ^ 1024" by simp
  with assms have pos: "0 < i" by linarith
  define k where "k = bitlen i - 1"
  have b: "2 ^ nat k \<le> i" "i < 2 ^ nat (bitlen i)"
    using bitlen_bounds[OF pos] by (simp_all add: k_def)
  have lt: "(2::int) ^ 1024 < 2 ^ nat (bitlen i)" using assms b(2) by linarith
  have "(1024::nat) < nat (bitlen i)"
    by (rule power_less_imp_less_exp[OF _ lt]) simp
  then have k1024: "1024 \<le> k" by (simp add: k_def)
  have p: "pow2 k \<le> of_int i" using b(1) k1024 by (simp add: pow2_def)
  have fl: "floor_log2 (of_int i) = k"
    using p by (simp add: floor_log2_def quotient_of_int bitlen_one k_def)
  have a: "\<bar>i\<bar> = i" "\<not> i < 0" using pos by simp_all
  have "round_double False (of_int i) = PosInf"
    using pos k1024 by (simp add: round_double_def Let_def fl max_def)
  then show ?thesis by (simp add: a)
qed

lemma py_float_uncaught:
  assumes "py_float item = Inl e" and "e \<noteq> ValueError" and "e \<noteq> TypeError"
  shows "e = OverflowError \<and> (\<exists>i. item = PInt i)"
proof (cases item)
  case (PDecimal d)
  then show ?thesis using assms by (cases d) auto
qed (use assms py_float_numeric_error[OF assms(1)] in auto)

lemma collect_error:
  "collect data ts ns = Inl e \<Longrightarrow>
   e = OverflowError \<and> (\<exists>i. PInt i \<in> set data \<and> py_float (PInt i) = Inl OverflowError)"
proof (induction data arbitrary: ts ns)
  case Nil
  then show ?case by simp
next
  case (Cons item rest)
  define ts1 where "ts1 = (if type_name item \<in> set ts then ts else ts @ [type_name item])"
  have step: "e = OverflowError
      \<and> (\<exists>i. PInt i \<in> set (item # rest) \<and> py_float (PInt i) = Inl OverflowError)"
    if "collect rest ts2 ns2 = Inl e" for ts2 ns2
    using Cons.IH[OF that] by auto
  show ?case
  proof (cases "item = PNone")
    case True
    then have "collect rest ts ns = Inl e" using Cons.prems by simp
    then show ?thesis by (rule step)
  next
    case False
    show ?thesis
    proof (cases "type_name item \<in> set numeric_names")
      case num: True
      show ?thesis
      proof (cases "py_float item")
        case (Inl e')
        show ?thesis
        proof (cases "e' = ValueError \<or> e' = TypeError")
          case True
          then have "collect rest ts1 ns = Inl e"
            using Cons.prems False num Inl by (simp add: Let_def ts1_def)
          then show ?thesis by (rule step)
        next
          case uncaught: False
          then have "e = e'"
            using Cons.prems False num Inl by (simp add: Let_def)
          moreover have "e' = OverflowError \<and> (\<exists>i. item = PInt i)"
            using py_float_uncaught[OF Inl] uncaught by simp
          ultimately show ?thesis using Inl by auto
        qed
      next
        case (Inr f)
        then have "collect rest ts1 (ns @ [f]) = Inl e"
          using Cons.prems False num by (simp add: Let_def ts1_def)
        then show ?thesis by (rule step)
      qed
    next
      case nonnum: False
      then have "collect rest ts1 ns = Inl e"
        using Cons.prems False by (simp add: Let_def ts1_def)
      then show ?thesis by (rule step)
    qed
  qed
qed

lemma predominant_type_returns:
  assumes "ts = add_types [] (map type_name (not_none data))"
  shows "\<exists>ty. predominant_type ts data = Inr ty"
proof (cases "1 < length ts")
  case True
  then have "ts \<noteq> []" by auto
  then have "map type_name (not_none data) \<noteq> []"
    using assms by (auto simp: add_types_def)
  then have "counter (map type_name (not_none data)) \<noteq> []" by (rule counter_nonempty)
  then have "sort_key (\<lambda>vc. - int (snd vc)) (counter (map type_name (not_none data))) \<noteq> []"
    by (metis length_0_conv length_sort)
  then have "most_common 1 (counter (map type_name (not_none data))) \<noteq> []"
    by (simp add: most_common_def)
  then show ?thesis
    using True by (auto simp: predominant_type_def split: list.splits)
next
  case False
  then show ?thesis by (cases ts) (auto simp: predominant_type_def)
qed

lemma analyze_only_overflow:
  assumes "analyze_sample_data env data = Inl e"
  shows "e = OverflowError \<and> (\<exists>i. PInt i \<in> set data \<and> py_float (PInt i) = Inl OverflowError)"
proof (cases "collect data [] []")
  case (Inl e')
  then have "e' = e" using assms by (auto simp: analyze_sample_data_def split: if_splits)
  then show ?thesis using collect_error[OF Inl] by simp
next
  case (Inr tn)
  obtain ts ns where tn: "tn = (ts, ns)" by (cases tn)
  have "ts = add_types [] (map type_name (not_none data))"
    using collect_types[of data "[]" "[]" ts ns] Inr tn by simp
  then obtain ty where "predominant_type ts data = Inr ty"
    using predominant_type_returns by blast
  then have False
    using assms Inr tn by (auto simp: analyze_sample_data_def Let_def split: if_splits)
  then show ?thesis ..
qed

text \<open>
  C8 (the code departs from the claim). The conversion of an item to a float stands in
  a \<open>try\<close> that catches ValueError and TypeError; an integer beyond the range of a
  double raises OverflowError, which is not caught and ends the description of the
  column. By \<open>analyze_only_overflow\<close> this is the only way the analysis fails.
\<close>

theorem C8_overflow_error_not_caught:
  "generate_column_description env ''quantity'' ''NUMBER(38,0)'' [PInt (10 ^ 400)] =
     Inl OverflowError"
proof -
  define x where "x = PInt (10 ^ 400)"
  have 1: "(2::int) ^ 1024 \<le> 2 ^ (3 * 400)" by (rule power_increasing) simp_all
  have 2: "(2::int) ^ (3 * 400) = (2 ^ 3) ^ 400" by (rule power_mult)
  have 3: "((2::int) ^ 3) ^ 400 \<le> 10 ^ 400" by (rule power_mono) simp_all
  have "(2::int) ^ 1024 \<le> 10 ^ 400" by (rule order_trans[OF 1[unfolded 2] 3])
  then have h: "py_float x = Inl OverflowError"
    unfolding x_def by (rule py_float_overflow)
  have t: "type_name x = ''int''" "x \<noteq> PNone" by (simp_all add: x_def)
  have "collect [x] [] [] = Inl OverflowError"
    using h t by (simp add: Let_def numeric_names_def)
  then have "analyze_sample_data env [x] = Inl OverflowError"
    by (simp add: analyze_sample_data_def)
  then have "generate_column_description env ''quantity'' ''NUMBER(38,0)'' [x] =
      Inl OverflowError"
    by (simp add: generate_column_description_def)
  then show ?thesis unfolding x_def .
qed

section \<open>Minimum and maximum\<close>

lemma float_le_refl: "x \<noteq> NaN \<Longrightarrow> float_le x x"
  by (cases x) auto

lemma float_lt_le: "float_lt x y \<Longrightarrow> float_le x y"
  by (cases x; cases y) auto

lemma float_not_lt_le: "x \<noteq> NaN \<Longrightarrow> y \<noteq> NaN \<Longrightarrow> \<not> float_lt y x \<Longrightarrow> float_le x y"
  by (cases x; cases y) auto

lemma float_le_trans: "float_le x y \<Longrightarrow> float_le y z \<Longrightarrow> float_le x z"
  by (cases x; cases y; cases z) auto

lemma foldl_min_least:
  assumes "NaN \<notin> set (m # ys)"
  shows "foldl (\<lambda>m y. if float_lt y m then y else m) m ys \<in> set (m # ys)
    \<and> float_le (foldl (\<lambda>m y. if float_lt y m then y else m) m ys) m
    \<and> (\<forall>y\<in>set ys. float_le (foldl (\<lambda>m y. if float_lt y m then y else m) m ys) y)"
  using assms
proof (induction ys arbitrary: m)
  case Nil
  then show ?case by (simp add: float_le_refl)
next
  case (Cons y ys)
  let ?f = "\<lambda>m y. if float_lt y m then y else m"
  define m' where "m' = ?f m y"
  have nn: "m \<noteq> NaN" "y \<noteq> NaN" using Cons.prems by auto
  have m'n: "NaN \<notin> set (m' # ys)" using Cons.prems by (auto simp: m'_def)
  have a: "float_le m' m" using nn by (auto simp: m'_def float_lt_le float_le_refl)
  have b: "float_le m' y" using nn by (auto simp: m'_def float_not_lt_le float_le_refl)
  have mem: "m' \<in> {m, y}" by (auto simp: m'_def)
  define r where "r = foldl ?f m' ys"
  have ih: "r \<in> set (m' # ys)" "float_le r m'" "\<forall>z\<in>set ys. float_le r z"
    using Cons.IH[OF m'n] by (simp_all add: r_def)
  have e: "foldl ?f m (y # ys) = r" by (simp add: r_def m'_def)
  have "r \<in> set (m # y # ys)" using ih(1) mem by auto
  moreover have "float_le r m" using ih(2) a by (rule float_le_trans)
  moreover have "float_le r y" using ih(2) b by (rule float_le_trans)
  ultimately show ?case unfolding e using ih(3) by simp
qed

lemma foldl_max_greatest:
  assumes "NaN \<notin> set (m # ys)"
  shows "foldl (\<lambda>m y. if float_lt m y then y else m) m ys \<in> set (m # ys)
    \<and> float_le m (foldl (\<lambda>m y. if float_lt m y then y else m) m ys)
    \<and> (\<forall>y\<in>set ys. float_le y (foldl (\<lambda>m y. if float_lt m y then y else m) m ys))"
  using assms
proof (induction ys arbitrary: m)
  case Nil
  then show ?case by (simp add: float_le_refl)
next
  case (Cons y ys)
  let ?f = "\<lambda>m y. if float_lt m y then y else m"
  define m' where "m' = ?f m y"
  have nn: "m \<noteq> NaN" "y \<noteq> NaN" using Cons.prems by auto
  have m'n: "NaN \<notin> set (m' # ys)" using Cons.prems by (auto simp: m'_def)
  have a: "float_le m m'" using nn by (auto simp: m'_def float_lt_le float_le_refl)
  have b: "float_le y m'" using nn by (auto simp: m'_def float_not_lt_le float_le_refl)
  have mem: "m' \<in> {m, y}" by (auto simp: m'_def)
  define r where "r = foldl ?f m' ys"
  have ih: "r \<in> set (m' # ys)" "float_le m' r" "\<forall>z\<in>set ys. float_le z r"
    using Cons.IH[OF m'n] by (simp_all add: r_def)
  have e: "foldl ?f m (y # ys) = r" by (simp add: r_def m'_def)
  have "r \<in> set (m # y # ys)" using ih(1) mem by auto
  moreover have "float_le m r" using a ih(2) by (rule float_le_trans)
  moreover have "float_le y r" using b ih(2) by (rule float_le_trans)
  ultimately show ?case unfolding e using ih(3) by simp
qed

lemma py_min_least: "NaN \<notin> set (x # xs) \<Longrightarrow> least_of (py_min x xs) (x # xs)"
  using foldl_min_least[of x xs] by (simp add: least_of_def py_min_def list_all_iff)

lemma py_max_greatest: "NaN \<notin> set (x # xs) \<Longrightarrow> greatest_of (py_max x xs) (x # xs)"
  using foldl_max_greatest[of x xs] by (simp add: greatest_of_def py_max_def list_all_iff)

section \<open>The fields beside the numeric range\<close>

lemma analyze_text_upd:
  "(analyze_text env d an)\<lparr>a_stats := s\<rparr> = analyze_text env d (an\<lparr>a_stats := s\<rparr>)"
  by (simp add: analyze_text_def Let_def)

lemma analyze_upd:
  assumes "analyze_sample_data env data = Inr a" and "data \<noteq> []"
  shows "\<exists>ts ns ty. collect data [] [] = Inr (ts, ns)
    \<and> predominant_type ts data = Inr ty
    \<and> (\<forall>s. a\<lparr>a_stats := s\<rparr> =
            (if ty = Some ''str'' \<or> ty = Some ''string''
             then analyze_text env data (empty_analysis\<lparr>a_type := ty, a_stats := s\<rparr>)
             else empty_analysis\<lparr>a_type := ty, a_stats := s\<rparr>))"
proof -
  from assms obtain ts ns ty where c: "collect data [] [] = Inr (ts, ns)"
    and p: "predominant_type ts data = Inr ty"
    and a: "a = (if ty = Some ''str'' \<or> ty = Some ''string''
              then analyze_text env data
                     (empty_analysis\<lparr>a_type := ty, a_stats := number_stats env ns\<rparr>)
              else empty_analysis\<lparr>a_type := ty, a_stats := number_stats env ns\<rparr>)"
    by (rule analyze_Inr)
  have "\<forall>s. a\<lparr>a_stats := s\<rparr> =
            (if ty = Some ''str'' \<or> ty = Some ''string''
             then analyze_text env data (empty_analysis\<lparr>a_type := ty, a_stats := s\<rparr>)
             else empty_analysis\<lparr>a_type := ty, a_stats := s\<rparr>)"
    unfolding a by (simp add: analyze_text_upd)
  with c p show ?thesis by blast
qed

lemma names_of: "map fst (names_and_strings env d) = map type_name (not_none d)"
  by (simp add: names_and_strings_def comp_def)

lemma strings_of: "map snd (names_and_strings env d) = map (py_str env) (not_none d)"
  by (simp add: names_and_strings_def comp_def)

lemma analyze_same_names_and_strings:
  assumes "analyze_sample_data env data = Inr a"
    and "analyze_sample_data env data' = Inr a'"
    and "names_and_strings env data' = names_and_strings env data"
  shows "a'\<lparr>a_stats := s\<rparr> = a\<lparr>a_stats := s\<rparr>"
proof (cases "not_none data = []")
  case True
  then have "not_none data' = []"
    using assms(3) by (simp add: names_and_strings_def)
  then have "a' = empty_analysis" using analyze_all_none[of data' env] assms(2) by simp
  moreover have "a = empty_analysis" using analyze_all_none[OF True, of env] assms(1) by simp
  ultimately show ?thesis by simp
next
  case False
  then have d: "data \<noteq> []" by (auto simp: not_none_def)
  have N: "map type_name (not_none data') = map type_name (not_none data)"
    using assms(3) names_of by metis
  have S: "map (py_str env) (not_none data') = map (py_str env) (not_none data)"
    using assms(3) strings_of by metis
  have "not_none data' \<noteq> []" using False N by (metis map_is_Nil_conv)
  then have d': "data' \<noteq> []" by (auto simp: not_none_def)
  from analyze_upd[OF assms(1) d] obtain ts ns ty
    where c: "collect data [] [] = Inr (ts, ns)"
    and p: "predominant_type ts data = Inr ty"
    and a: "\<forall>s. a\<lparr>a_stats := s\<rparr> =
            (if ty = Some ''str'' \<or> ty = Some ''string''
             then analyze_text env data (empty_analysis\<lparr>a_type := ty, a_stats := s\<rparr>)
             else empty_analysis\<lparr>a_type := ty, a_stats := s\<rparr>)"
    by blast
  from analyze_upd[OF assms(2) d'] obtain ts' ns' ty'
    where c': "collect data' [] [] = Inr (ts', ns')"
    and p': "predominant_type ts' data' = Inr ty'"
    and a': "\<forall>s. a'\<lparr>a_stats := s\<rparr> =
            (if ty' = Some ''str'' \<or> ty' = Some ''string''
             then analyze_text env data' (empty_analysis\<lparr>a_type := ty', a_stats := s\<rparr>)
             else empty_analysis\<lparr>a_type := ty', a_stats := s\<rparr>)"
    by blast
  have "ts' = ts" using collect_types[OF c] collect_types[OF c'] N by simp
  moreover have "predominant_type ts data' = predominant_type ts data"
    unfolding predominant_type_def N by (rule refl)
  ultimately have ty: "ty' = ty" using p p' by simp
  have "analyze_text env data' an = analyze_text env data an" for an
    unfolding analyze_text_def S by (rule refl)
  then show ?thesis using a a' ty by simp
qed

text \<open>
  C7 (amended). When the analysis returns a profile, the numeric range is present exactly
  when some item of a numeric category converts to a float; if no converted value is a
  NaN, the minimum and the maximum are the least and the greatest of the converted values;
  and the other fields are those of any sample with the same type names and string
  forms, whatever converts there. An integer beyond the range of a double is not skipped
  (claim C8), and with a NaN the result depends on the order of the sample.
\<close>

theorem C7_range_of_coerced_items:
  assumes "analyze_sample_data env data = Inr a"
  shows "(a_stats a \<noteq> None \<longleftrightarrow> list_ex coercible data)
    \<and> (\<forall>st. a_stats a = Some st \<and> NaN \<notin> set (coerced data)
          \<longrightarrow> least_of (st_min st) (coerced data) \<and> greatest_of (st_max st) (coerced data))
    \<and> (\<forall>data' a'. analyze_sample_data env data' = Inr a'
            \<and> names_and_strings env data' = names_and_strings env data
          \<longrightarrow> a_type a' = a_type a \<and> a_common_values a' = a_common_values a
              \<and> a_patterns a' = a_patterns a \<and> a_entity_types a' = a_entity_types a)"
proof (intro conjI allI impI)
  show "a_stats a \<noteq> None \<longleftrightarrow> list_ex coercible data"
    using analyze_stats[OF assms] by (simp add: number_stats_None coerced_coercible)
next
  fix st
  assume h: "a_stats a = Some st \<and> NaN \<notin> set (coerced data)"
  then have "number_stats env (coerced data) = Some st" using analyze_stats[OF assms] by simp
  then obtain x xs where c: "coerced data = x # xs"
    and st: "st_min st = py_min x xs" "st_max st = py_max x xs"
    by (cases "coerced data") (auto simp: number_stats_def)
  have n: "NaN \<notin> set (x # xs)" using h c by simp
  show "least_of (st_min st) (coerced data)" unfolding c st by (rule py_min_least[OF n])
  show "greatest_of (st_max st) (coerced data)" unfolding c st by (rule py_max_greatest[OF n])
next
  fix data' a'
  assume h: "analyze_sample_data env data' = Inr a'
    \<and> names_and_strings env data' = names_and_strings env data"
  then have e: "a'\<lparr>a_stats := None\<rparr> = a\<lparr>a_stats := None\<rparr>"
    using analyze_same_names_and_strings[OF assms] by blast
  have "a_type (a'\<lparr>a_stats := None\<rparr>) = a_type (a\<lparr>a_stats := None\<rparr>)"
    "a_common_values (a'\<lparr>a_stats := None\<rparr>) = a_common_values (a\<lparr>a_stats := None\<rparr>)"
    "a_patterns (a'\<lparr>a_stats := None\<rparr>) = a_patterns (a\<lparr>a_stats := None\<rparr>)"
    "a_entity_types (a'\<lparr>a_stats := None\<rparr>) = a_entity_types (a\<lparr>a_stats := None\<rparr>)"
    unfolding e by (rule refl)+
  then show "a_type a' = a_type a" "a_common_values a' = a_common_values a"
    "a_patterns a' = a_patterns a" "a_entity_types a' = a_entity_types a"
    by simp_all
qed

lemma numeric_sample:
  "analyze_sample_data env0 [PInt 5, PDecimal DSNaN, PFloat (Fin (1 / 2))] =
     Inr \<lparr>a_type = Some ''int'', a_common_values = None, a_patterns = [],
          a_entity_types = [],
          a_stats = Some \<lparr>st_min = Fin (1 / 2), st_max = Fin 5, st_avg = NaN\<rparr>\<rparr>"
  by (simp add: analyze_defs py_float_5 del: py_float.simps(1))

lemma numeric_sample_coerced:
  "coerced [PInt 5, PDecimal DSNaN, PFloat (Fin (1 / 2))] = [Fin 5, Fin (1 / 2)]"
  by (simp add: is_numeric_def numeric_names_def py_float_5 del: py_float.simps(1))

theorem C7_witness:
  "range_and_entities
     (analyze_sample_data env0 [PInt 5, PDecimal DSNaN, PFloat (Fin (1 / 2))]) =
     Inr (Some (Fin (1 / 2), Fin 5), [])
   \<and> list_ex coercible [PInt 5, PDecimal DSNaN, PFloat (Fin (1 / 2))]
   \<and> least_of (Fin (1 / 2)) (coerced [PInt 5, PDecimal DSNaN, PFloat (Fin (1 / 2))])
   \<and> greatest_of (Fin 5) (coerced [PInt 5, PDecimal DSNaN, PFloat (Fin (1 / 2))])"
proof -
  have n: "NaN \<notin> set (coerced [PInt 5, PDecimal DSNaN, PFloat (Fin (1 / 2))])"
    unfolding numeric_sample_coerced by simp
  show ?thesis
    using C7_range_of_coerced_items[OF numeric_sample] n
    by (simp add: range_and_entities_def numeric_sample del: coerced.simps)
qed

text \<open>
  With a NaN in front, the minimum and the maximum are the NaN, which is below and above
  nothing.
\<close>

theorem C7_counterexample:
  "range_and_entities (analyze_sample_data env0 [PFloat NaN, PFloat (Fin 1)]) =
     Inr (Some (NaN, NaN), [])
   \<and> coerced [PFloat NaN, PFloat (Fin 1)] = [NaN, Fin 1]
   \<and> \<not> least_of NaN [NaN, Fin 1] \<and> \<not> greatest_of NaN [NaN, Fin 1]"
  by (simp add: range_and_entities_def analyze_defs is_numeric_def least_of_def
      greatest_of_def)

section \<open>The amount rule and the format of the range\<close>

lemma digit_char_digit: "d < 10 \<Longrightarrow> is_digit (digit_char d)"
  unfolding is_digit_def digit_char_def by (rule nth_mem) (simp add: digits_def)

lemma digit_value_char: "d < 10 \<Longrightarrow> digit_value (digit_char d) = d"
proof -
  assume "d < 10"
  then have "d = 0 \<or> d = 1 \<or> d = 2 \<or> d = 3 \<or> d = 4 \<or> d = 5 \<or> d = 6 \<or> d = 7
      \<or> d = 8 \<or> d = 9"
    by presburger
  then show ?thesis
    by (elim disjE) (simp_all add: digit_value_def digit_char_def digits_def)
qed

lemma show_nat_digits: "list_all is_digit (show_nat n) \<and> show_nat n \<noteq> []"
proof (induction n rule: show_nat.induct)
  case (1 n)
  show ?case
  proof (cases "n < 10")
    case True
    then show ?thesis by (simp add: show_nat.simps[of n] digit_char_digit)
  next
    case False
    then show ?thesis using 1 by (simp add: show_nat.simps[of n] digit_char_digit)
  qed
qed

lemma not_digit: "\<not> is_digit CHR ''.''" "\<not> is_digit CHR ''-''"
  by (simp_all add: is_digit_def digits_def)

lemma read_digits_append:
  "read_digits acc (xs @ ys) = read_digits (read_digits acc xs) ys"
  by (induction xs arbitrary: acc) simp_all

lemma read_digits_show_nat: "read_digits 0 (show_nat n) = n"
proof (induction n rule: show_nat.induct)
  case (1 n)
  show ?case
  proof (cases "n < 10")
    case True
    then show ?thesis
      by (simp add: show_nat.simps[of n] digit_char_digit digit_value_char)
  next
    case False
    then have "read_digits 0 (show_nat (n div 10)) = n div 10" using 1 by simp
    then show ?thesis
      using False
      by (simp add: show_nat.simps[of n] read_digits_append digit_char_digit digit_value_char)
  qed
qed

lemma two_decimals_digits:
  assumes "list_all is_digit ds" and "ds \<noteq> []" and "is_digit x" and "is_digit y"
  shows "two_decimals (ds @ ''.'' @ [x, y])" and "two_decimals (''-'' @ ds @ ''.'' @ [x, y])"
proof -
  from assms(2) obtain d ds' where ds: "ds = d # ds'" by (cases ds) auto
  then have d: "is_digit d" using assms(1) by simp
  then have dm: "d \<noteq> CHR ''-''" using not_digit(2) by auto
  have all: "\<forall>c\<in>set ds. is_digit c" using assms(1) by (simp add: list_all_iff)
  have tw: "takeWhile is_digit (ds @ CHR ''.'' # [x, y]) = ds"
    using all not_digit(1) by (simp add: takeWhile_tail)
  have dw: "dropWhile is_digit (ds @ CHR ''.'' # [x, y]) = CHR ''.'' # [x, y]"
    using all not_digit(1) by (simp add: dropWhile_append3)
  have s1: "(case ds @ ''.'' @ [x, y] of [] \<Rightarrow> [] | c # r \<Rightarrow> if c = CHR ''-'' then r else ds @ ''.'' @ [x, y])
      = ds @ CHR ''.'' # [x, y]"
    using dm by (simp add: ds)
  show "two_decimals (ds @ ''.'' @ [x, y])"
    unfolding two_decimals_def s1 Let_def tw dw using assms by simp
  have s2: "(case ''-'' @ ds @ ''.'' @ [x, y] of [] \<Rightarrow> [] | c # r \<Rightarrow> if c = CHR ''-'' then r else ''-'' @ ds @ ''.'' @ [x, y])
      = ds @ CHR ''.'' # [x, y]"
    by simp
  show "two_decimals (''-'' @ ds @ ''.'' @ [x, y])"
    unfolding two_decimals_def s2 Let_def tw dw using assms by simp
qed

lemma round_half_even_nearest:
  assumes "0 \<le> x"
  shows "0 \<le> round_half_even x"
    and "\<bar>of_int (round_half_even x) - x\<bar> \<le> 1 / 2"
    and "\<bar>of_int (round_half_even x) - x\<bar> = 1 / 2 \<Longrightarrow> even (round_half_even x)"
proof -
  define f where "f = \<lfloor>x\<rfloor>"
  define r where "r = x - of_int f"
  define n where "n = round_half_even x"
  have f0: "0 \<le> f" using assms by (simp add: f_def)
  have r0: "0 \<le> r" unfolding r_def f_def using of_int_floor_le[of x] by simp
  have r1: "r < 1" unfolding r_def f_def using floor_correct[of x] by simp
  have e: "n = (if r < 1 / 2 then f else if 1 / 2 < r then f + 1
                else if even f then f else f + 1)"
    by (simp add: n_def round_half_even_def Let_def f_def r_def)
  have d: "of_int n - x =
      (if r < 1 / 2 then - r else if 1 / 2 < r then 1 - r
       else if even f then - r else 1 - r)"
    unfolding e by (simp add: r_def)
  have "0 \<le> n" unfolding e using f0 by simp
  then show "0 \<le> round_half_even x" by (simp add: n_def)
  have "\<bar>of_int n - x\<bar> \<le> 1 / 2" unfolding d using r0 r1 by auto
  then show "\<bar>of_int (round_half_even x) - x\<bar> \<le> 1 / 2" by (simp add: n_def)
  show "even (round_half_even x)" if "\<bar>of_int (round_half_even x) - x\<bar> = 1 / 2"
  proof -
    have "\<bar>of_int n - x\<bar> = 1 / 2" using that by (simp add: n_def)
    then have "r = 1 / 2" unfolding d using r0 r1 by (auto split: if_splits)
    then have "even n" unfolding e by simp
    then show ?thesis by (simp add: n_def)
  qed
qed

lemma hundredths: "(n div 100 * 10 + n mod 100 div 10) * 10 + n mod 10 = (n::nat)"
proof -
  define h t u m where "h = n div 100" and "t = n mod 100 div 10" and "u = n mod 10"
    and "m = n mod 100"
  have "n mod 100 mod 10 = n mod 10" by (simp add: mod_mod_cancel)
  then have "m mod 10 = u" by (simp only: m_def u_def)
  moreover have "m div 10 * 10 + m mod 10 = m" by (rule div_mult_mod_eq)
  ultimately have a: "t * 10 + u = m" by (simp only: t_def m_def)
  have "n div 100 * 100 + n mod 100 = n" by (rule div_mult_mod_eq)
  then have b: "h * 100 + m = n" by (simp only: h_def m_def)
  have "(h * 10 + t) * 10 + u = h * 100 + (t * 10 + u)" by (simp add: algebra_simps)
  also have "\<dots> = n" by (simp only: a b)
  finally show ?thesis by (simp only: h_def t_def u_def)
qed

lemma fmt2_Fin:
  "two_decimals (fmt2 (Fin q))"
  "cents (fmt2 (Fin q)) = nat (round_half_even (\<bar>q\<bar> * 100))"
  "prefix ''-'' (fmt2 (Fin q)) \<longleftrightarrow> q < 0"
proof -
  define n where "n = nat (round_half_even (\<bar>q\<bar> * 100))"
  define ds where "ds = show_nat (n div 100)"
  define x where "x = digit_char (n mod 100 div 10)"
  define y where "y = digit_char (n mod 10)"
  have dd: "list_all is_digit ds" "ds \<noteq> []" using show_nat_digits by (simp_all add: ds_def)
  have x: "is_digit x" "digit_value x = n mod 100 div 10"
    by (simp_all add: x_def digit_char_digit digit_value_char)
  have y: "is_digit y" "digit_value y = n mod 10"
    by (simp_all add: y_def digit_char_digit digit_value_char)
  have f: "fmt2 (Fin q) = (if q < 0 then ''-'' else []) @ ds @ ''.'' @ [x, y]"
    by (simp add: Let_def n_def ds_def x_def y_def)
  have t: "two_decimals (ds @ ''.'' @ [x, y])" "two_decimals (''-'' @ ds @ ''.'' @ [x, y])"
    using two_decimals_digits[OF dd x(1) y(1)] by simp_all
  show "two_decimals (fmt2 (Fin q))" unfolding f using t by simp
  have "read_digits 0 ds = n div 100" by (simp only: ds_def read_digits_show_nat)
  then have "read_digits 0 (ds @ ''.'' @ [x, y]) = read_digits (n div 100) (''.'' @ [x, y])"
    by (simp only: read_digits_append)
  also have "\<dots> = (n div 100 * 10 + n mod 100 div 10) * 10 + n mod 10"
    using x y not_digit(1) by simp
  also have "\<dots> = n" by (rule hundredths)
  finally have r: "read_digits 0 (ds @ ''.'' @ [x, y]) = n" .
  have "cents (fmt2 (Fin q)) = n"
    unfolding f cents_def using r not_digit(2) by simp
  then show "cents (fmt2 (Fin q)) = nat (round_half_even (\<bar>q\<bar> * 100))" by (simp add: n_def)
  obtain d ds' where "ds = d # ds'" using dd(2) by (cases ds) auto
  moreover from this have "d \<noteq> CHR ''-''" using dd(1) not_digit(2) by auto
  ultimately show "prefix ''-'' (fmt2 (Fin q)) \<longleftrightarrow> q < 0" unfolding f by simp
qed

lemma fmt2_finite:
  assumes "finite_float f"
  shows "two_decimals (fmt2 f) \<and> nearest_cents (cents (fmt2 f)) (finite_value f)
     \<and> (prefix ''-'' (fmt2 f) \<longleftrightarrow> finite_value f < 0 \<or> f = NegZero)"
proof (cases "f = NegZero")
  case True
  have "two_decimals ''-0.00''" by (simp add: two_decimals_def is_digit_def digits_def)
  moreover have "cents ''-0.00'' = 0"
    by (simp add: cents_def is_digit_def digit_value_def digits_def)
  ultimately show ?thesis using True by (simp add: nearest_cents_def)
next
  case False
  then obtain q where f: "f = Fin q" using assms by (auto simp: finite_float_def)
  define n where "n = round_half_even (\<bar>q\<bar> * 100)"
  have p: "0 \<le> \<bar>q\<bar> * 100" by simp
  have n0: "0 \<le> n" unfolding n_def by (rule round_half_even_nearest(1)[OF p])
  have c: "(of_nat (nat n) :: rat) = of_int n" using n0 by simp
  have "nearest_cents (nat n) q"
    unfolding nearest_cents_def c
    using round_half_even_nearest(2,3)[OF p] n0 by (auto simp: n_def even_nat_iff)
  then show ?thesis using fmt2_Fin[of q] by (simp add: f n_def)
qed

lemma describe_amount:
  "\<not> is_id_col n \<Longrightarrow> \<not> is_date_col n \<Longrightarrow> is_amount_col n \<Longrightarrow>
   describe n t an = amount_description (clean_column_name n) an"
  by (simp add: describe_def)

text \<open>
  C9 (amended). For a column that reaches the amount rule and whose profile has a numeric
  range, the description ends with \<open>(ranges from X to Y)\<close>, where X and Y are the bounds
  in the format \<open>.2f\<close>. A finite bound is printed with exactly two decimals: a minus sign
  when it is negative or the negative zero, then the magnitude rounded to the nearest
  hundredth, a tie going to the even hundredth. An infinite bound is printed as \<open>inf\<close> or
  \<open>-inf\<close> and a NaN as \<open>nan\<close>, without decimals.
\<close>

theorem C9_range_in_format_2f:
  assumes "analyze_sample_data env data = Inr a"
    and "\<not> is_id_col n" and "\<not> is_date_col n" and "is_amount_col n"
    and "a_stats a = Some st"
  shows "generate_column_description env n t data =
       Inr (''Monetary amount for '' @ clean_column_name n @ '' (ranges from ''
            @ fmt2 (st_min st) @ '' to '' @ fmt2 (st_max st) @ '')'')
     \<and> (\<forall>f\<in>{st_min st, st_max st}.
          (finite_float f \<longrightarrow>
             two_decimals (fmt2 f) \<and> nearest_cents (cents (fmt2 f)) (finite_value f)
             \<and> (prefix ''-'' (fmt2 f) \<longleftrightarrow> finite_value f < 0 \<or> f = NegZero))
          \<and> (f = PosInf \<longrightarrow> fmt2 f = ''inf'') \<and> (f = NegInf \<longrightarrow> fmt2 f = ''-inf'')
          \<and> (f = NaN \<longrightarrow> fmt2 f = ''nan''))"
proof -
  have "describe n t a = amount_description (clean_column_name n) a"
    using assms(2-4) by (rule describe_amount)
  then have "generate_column_description env n t data =
       Inr (''Monetary amount for '' @ clean_column_name n @ '' (ranges from ''
            @ fmt2 (st_min st) @ '' to '' @ fmt2 (st_max st) @ '')'')"
    using assms(1,5)
    by (simp add: generate_column_description_def amount_description_def del: fmt2.simps)
  moreover have "(finite_float f \<longrightarrow>
             two_decimals (fmt2 f) \<and> nearest_cents (cents (fmt2 f)) (finite_value f)
             \<and> (prefix ''-'' (fmt2 f) \<longleftrightarrow> finite_value f < 0 \<or> f = NegZero))
          \<and> (f = PosInf \<longrightarrow> fmt2 f = ''inf'') \<and> (f = NegInf \<longrightarrow> fmt2 f = ''-inf'')
          \<and> (f = NaN \<longrightarrow> fmt2 f = ''nan'')" for f
    using fmt2_finite[of f] by auto
  ultimately show ?thesis by blast
qed

lemma clean_total_amount: "clean_column_name ''total_amount'' = ''Total amount''"
  by (simp add: clean_defs str_defs del: match_atoms.simps)

lemma total_amount_rule:
  "\<not> is_id_col ''total_amount''" "\<not> is_date_col ''total_amount''"
  "is_amount_col ''total_amount''"
proof -
  have l: "lower ''total_amount'' = ''total_amount''" by (simp add: str_defs)
  show "\<not> is_id_col ''total_amount''" unfolding is_id_col_iff l by (simp add: sfx_defs)
  show "\<not> is_date_col ''total_amount''"
    unfolding is_date_col_def date_rx_def re_search_iff l
    by (simp add: found_lit_eol sfx_defs)
  show "is_amount_col ''total_amount''" unfolding is_amount_col_def l by simp
qed

lemma one_float_sample:
  "analyze_sample_data env0 [PFloat f] =
     Inr \<lparr>a_type = Some ''float'', a_common_values = None, a_patterns = [],
          a_entity_types = [], a_stats = Some \<lparr>st_min = f, st_max = f, st_avg = NaN\<rparr>\<rparr>"
  by (simp add: analyze_defs)

lemma two_floats_sample:
  assumes "p < q"
  shows "analyze_sample_data env0 [PFloat (Fin p), PFloat (Fin q)] =
     Inr \<lparr>a_type = Some ''float'', a_common_values = None, a_patterns = [],
          a_entity_types = [],
          a_stats = Some \<lparr>st_min = Fin p, st_max = Fin q, st_avg = NaN\<rparr>\<rparr>"
  using assms by (simp add: analyze_defs)

lemma fmt2_examples:
  "fmt2 (Fin 10) = ''10.00''" "fmt2 (Fin (879565321755689 / 8796093022208)) = ''100.00''"
  "fmt2 (Fin (1 / 8)) = ''0.12''" "fmt2 (Fin (3 / 8)) = ''0.38''"
  by (simp_all add: fmt_defs)

lemma total_amount_range:
  assumes "analyze_sample_data env0 data =
     Inr \<lparr>a_type = ty, a_common_values = cv, a_patterns = ps, a_entity_types = es,
          a_stats = Some \<lparr>st_min = lo, st_max = hi, st_avg = av\<rparr>\<rparr>"
  shows "generate_column_description env0 ''total_amount'' ''FLOAT'' data =
     Inr (''Monetary amount for Total amount (ranges from '' @ fmt2 lo @ '' to ''
          @ fmt2 hi @ '')'')"
proof -
  have "describe ''total_amount'' ''FLOAT'' an = amount_description ''Total amount'' an" for an
    using describe_amount[OF total_amount_rule] by (simp add: clean_total_amount)
  then show ?thesis
    using assms
    by (simp add: generate_column_description_def amount_description_def del: fmt2.simps)
qed

text \<open>
  The witness prints 10 and the double next to 99.995, which lies above it; the two ties
  0.125 and 0.375, which go down and up to the even hundredth; and the negative zero.
\<close>

theorem C9_witness:
  "generate_column_description env0 ''total_amount'' ''FLOAT''
     [PFloat (Fin 10), PFloat (Fin (879565321755689 / 8796093022208))] =
     Inr ''Monetary amount for Total amount (ranges from 10.00 to 100.00)''
   \<and> generate_column_description env0 ''total_amount'' ''FLOAT''
       [PFloat (Fin (1 / 8)), PFloat (Fin (3 / 8))] =
     Inr ''Monetary amount for Total amount (ranges from 0.12 to 0.38)''
   \<and> generate_column_description env0 ''total_amount'' ''FLOAT'' [PFloat NegZero] =
     Inr ''Monetary amount for Total amount (ranges from -0.00 to -0.00)''
   \<and> two_decimals ''10.00'' \<and> two_decimals ''100.00'' \<and> two_decimals ''-0.00''
   \<and> nearest_cents 12 (1 / 8) \<and> nearest_cents 38 (3 / 8)"
proof -
  have a: "analyze_sample_data env0
      [PFloat (Fin 10), PFloat (Fin (879565321755689 / 8796093022208))] =
     Inr \<lparr>a_type = Some ''float'', a_common_values = None, a_patterns = [],
          a_entity_types = [],
          a_stats = Some \<lparr>st_min = Fin 10, st_max = Fin (879565321755689 / 8796093022208),
                          st_avg = NaN\<rparr>\<rparr>"
    by (rule two_floats_sample) simp
  have b: "analyze_sample_data env0 [PFloat (Fin (1 / 8)), PFloat (Fin (3 / 8))] =
     Inr \<lparr>a_type = Some ''float'', a_common_values = None, a_patterns = [],
          a_entity_types = [],
          a_stats = Some \<lparr>st_min = Fin (1 / 8), st_max = Fin (3 / 8), st_avg = NaN\<rparr>\<rparr>"
    by (rule two_floats_sample) simp
  note c = one_float_sample[of NegZero]
  have fin: "finite_float (Fin q)" "finite_float NegZero" for q
    by (simp_all add: finite_float_def)
  have cs: "cents ''0.12'' = 12" "cents ''0.38'' = 38"
    by (simp_all add: cents_def is_digit_def digit_value_def digits_def)
  from C9_range_in_format_2f[OF a total_amount_rule, of _ "''FLOAT''"]
  have 1: "generate_column_description env0 ''total_amount'' ''FLOAT''
     [PFloat (Fin 10), PFloat (Fin (879565321755689 / 8796093022208))] =
     Inr ''Monetary amount for Total amount (ranges from 10.00 to 100.00)''
     \<and> two_decimals ''10.00'' \<and> two_decimals ''100.00''"
    using fin by (simp add: fmt2_examples clean_total_amount del: fmt2.simps)
  from C9_range_in_format_2f[OF b total_amount_rule, of _ "''FLOAT''"]
  have 2: "generate_column_description env0 ''total_amount'' ''FLOAT''
       [PFloat (Fin (1 / 8)), PFloat (Fin (3 / 8))] =
     Inr ''Monetary amount for Total amount (ranges from 0.12 to 0.38)''
     \<and> nearest_cents 12 (1 / 8) \<and> nearest_cents 38 (3 / 8)"
    using fin cs by (simp add: fmt2_examples clean_total_amount del: fmt2.simps)
  from C9_range_in_format_2f[OF c total_amount_rule, of _ "''FLOAT''"]
  have 3: "generate_column_description env0 ''total_amount'' ''FLOAT'' [PFloat NegZero] =
     Inr ''Monetary amount for Total amount (ranges from -0.00 to -0.00)''
     \<and> two_decimals ''-0.00''"
    using fin by (simp add: clean_total_amount)
  from 1 2 3 show ?thesis by blast
qed

text \<open>
  An infinite amount or a NaN in the sample is printed without decimals.
\<close>

theorem C9_counterexample:
  "generate_column_description env0 ''total_amount'' ''FLOAT'' [PFloat PosInf] =
     Inr ''Monetary amount for Total amount (ranges from inf to inf)''
   \<and> generate_column_description env0 ''total_amount'' ''FLOAT'' [PFloat NegInf] =
     Inr ''Monetary amount for Total amount (ranges from -inf to -inf)''
   \<and> generate_column_description env0 ''total_amount'' ''FLOAT'' [PFloat NaN] =
     Inr ''Monetary amount for Total amount (ranges from nan to nan)''
   \<and> \<not> two_decimals ''inf'' \<and> \<not> two_decimals ''-inf'' \<and> \<not> two_decimals ''nan''"
proof -
  have "\<not> two_decimals ''inf''" "\<not> two_decimals ''-inf''" "\<not> two_decimals ''nan''"
    by (simp_all add: two_decimals_def is_digit_def digits_def)
  then show ?thesis
    using total_amount_range[OF one_float_sample[of PosInf]]
      total_amount_range[OF one_float_sample[of NegInf]]
      total_amount_range[OF one_float_sample[of NaN]]
    by simp
qed

section \<open>The flag rule\<close>

lemma analyze_common_values:
  assumes "analyze_sample_data env data = Inr a" and "a_common_values a = Some cv"
  shows "cv \<noteq> [] \<and> length cv \<le> 5 \<and> ranked cv"
proof -
  have ne: "data \<noteq> []"
    using assms by (auto simp: analyze_sample_data_def empty_analysis_def)
  from assms(1) ne obtain ts ns ty where
    a: "a = (if ty = Some ''str'' \<or> ty = Some ''string''
              then analyze_text env data
                     (empty_analysis\<lparr>a_type := ty, a_stats := number_stats env ns\<rparr>)
              else empty_analysis\<lparr>a_type := ty, a_stats := number_stats env ns\<rparr>)"
    by (rule analyze_Inr)
  let ?c = "most_common 5 (counter (map (py_str env) (not_none data)))"
  have "cv = ?c \<and> ?c \<noteq> []"
    using assms(2) unfolding a
    by (auto simp: analyze_text_def Let_def empty_analysis_def split: if_splits)
  moreover have "ranked ?c" by (rule most_common_ranked[OF counter_distinct])
  moreover have "length ?c \<le> 5" by (simp add: most_common_def)
  ultimately show ?thesis by simp
qed

lemma describe_flag:
  "\<not> is_id_col n \<Longrightarrow> \<not> is_date_col n \<Longrightarrow> \<not> is_amount_col n \<Longrightarrow> \<not> is_count_col n \<Longrightarrow>
   is_flag_col n \<Longrightarrow> describe n t an = flag_description (clean_column_name n) an"
  by (simp add: describe_def)

text \<open>
  C5 (amended). For a name that no earlier rule takes, the flag rule applies exactly when
  the lower-cased name contains \<open>is_\<close> at any place or ends with \<open>_flag\<close> or \<open>_flg\<close>
  (a final newline after the suffix is allowed). The description is then
  \<open>Flag indicating\<close> and the cleaned name, followed, when the profile has frequent values,
  by \<open>(possible values: ...)\<close> with these values, which are at most five, distinct and
  in the order of decreasing count.
\<close>

theorem C5_flag_rule_contains_is:
  assumes "analyze_sample_data env data = Inr a"
    and "\<not> is_id_col n" and "\<not> is_date_col n" and "\<not> is_amount_col n"
    and "\<not> is_count_col n"
  shows "(is_flag_col n \<longleftrightarrow>
            str_in ''is_'' (lower n) \<or> ends_with ''_flag'' (lower n)
            \<or> ends_with ''_flg'' (lower n))
     \<and> (is_flag_col n \<longrightarrow>
          generate_column_description env n t data =
            Inr (''Flag indicating '' @ clean_column_name n @
                 (case a_common_values a of
                    None \<Rightarrow> []
                  | Some cv \<Rightarrow> '' (possible values: '' @ join '', '' (map fst cv) @ '')'')))
     \<and> (\<forall>cv. a_common_values a = Some cv \<longrightarrow> cv \<noteq> [] \<and> length cv \<le> 5 \<and> ranked cv)"
proof (intro conjI allI impI)
  show "is_flag_col n \<longleftrightarrow>
      str_in ''is_'' (lower n) \<or> ends_with ''_flag'' (lower n) \<or> ends_with ''_flg'' (lower n)"
    by (rule is_flag_col_iff)
next
  assume "is_flag_col n"
  then have d: "describe n t a = flag_description (clean_column_name n) a"
    using assms(2-5) by (simp add: describe_flag)
  have "flag_description c a = ''Flag indicating '' @ c @
         (case a_common_values a of
            None \<Rightarrow> []
          | Some cv \<Rightarrow> '' (possible values: '' @ join '', '' (map fst cv) @ '')'')" for c
  proof (cases "a_common_values a")
    case None
    then show ?thesis by (simp add: flag_description_def truthy_def)
  next
    case (Some cv)
    then have "cv \<noteq> []" using analyze_common_values[OF assms(1)] by simp
    then show ?thesis using Some by (simp add: flag_description_def truthy_def)
  qed
  then show "generate_column_description env n t data =
      Inr (''Flag indicating '' @ clean_column_name n @
           (case a_common_values a of
              None \<Rightarrow> []
            | Some cv \<Rightarrow> '' (possible values: '' @ join '', '' (map fst cv) @ '')''))"
    using assms(1) d by (simp add: generate_column_description_def)
next
  fix cv
  assume "a_common_values a = Some cv"
  then show "cv \<noteq> []" "length cv \<le> 5" "ranked cv"
    using analyze_common_values[OF assms(1)] by simp_all
qed

lemma clean_is_active: "clean_column_name ''is_active'' = ''Is active''"
  by (simp add: clean_defs str_defs del: match_atoms.simps)

lemma clean_analysis_type: "clean_column_name ''analysis_type'' = ''Analysis type''"
  by (simp add: clean_defs str_defs del: match_atoms.simps)

lemma is_active_rule:
  "\<not> is_id_col ''is_active''" "\<not> is_date_col ''is_active''"
  "\<not> is_amount_col ''is_active''" "\<not> is_count_col ''is_active''" "is_flag_col ''is_active''"
proof -
  have l: "lower ''is_active'' = ''is_active''" by (simp add: str_defs)
  show "\<not> is_id_col ''is_active''" unfolding is_id_col_iff l by (simp add: sfx_defs)
  show "\<not> is_date_col ''is_active''"
    unfolding is_date_col_def date_rx_def re_search_iff l
    by (simp add: found_lit_eol sfx_defs)
  show "\<not> is_amount_col ''is_active''"
    unfolding is_amount_col_def amount_rx_def re_search_iff l
    by (simp add: found_lit_eol sfx_defs)
  show "\<not> is_count_col ''is_active''" unfolding is_count_col_def l by simp
  show "is_flag_col ''is_active''" unfolding is_flag_col_iff l by simp
qed

lemma analysis_type_rule:
  "\<not> is_id_col ''analysis_type''" "\<not> is_date_col ''analysis_type''"
  "\<not> is_amount_col ''analysis_type''" "\<not> is_count_col ''analysis_type''"
  "is_flag_col ''analysis_type''" "\<not> spec_flag_name ''analysis_type''"
proof -
  have l: "lower ''analysis_type'' = ''analysis_type''" by (simp add: str_defs)
  show "\<not> is_id_col ''analysis_type''" unfolding is_id_col_iff l by (simp add: sfx_defs)
  show "\<not> is_date_col ''analysis_type''"
    unfolding is_date_col_def date_rx_def re_search_iff l
    by (simp add: found_lit_eol sfx_defs)
  show "\<not> is_amount_col ''analysis_type''"
    unfolding is_amount_col_def amount_rx_def re_search_iff l
    by (simp add: found_lit_eol sfx_defs)
  show "\<not> is_count_col ''analysis_type''" unfolding is_count_col_def l by simp
  show "is_flag_col ''analysis_type''" unfolding is_flag_col_iff l by simp
  show "\<not> spec_flag_name ''analysis_type''"
    unfolding spec_flag_name_def l by (simp add: suffix_to_prefix)
qed

lemma flags_sample:
  "analyze_sample_data env0 [PStr ''Y'', PStr ''N'', PStr ''Y''] =
     Inr \<lparr>a_type = Some ''str'', a_common_values = Some [(''Y'', 2), (''N'', 1)],
          a_patterns = [], a_entity_types = [], a_stats = None\<rparr>"
  by (simp add: analyze_defs)

theorem C5_witness:
  "is_flag_col ''is_active''
   \<and> generate_column_description env0 ''is_active'' ''VARCHAR(1)''
       [PStr ''Y'', PStr ''N'', PStr ''Y''] =
     Inr ''Flag indicating Is active (possible values: Y, N)''
   \<and> ranked [(''Y'', 2), (''N'', 1)]"
  using C5_flag_rule_contains_is[OF flags_sample is_active_rule(1-4), of "''VARCHAR(1)''"]
    is_active_rule(5)
  by (simp add: clean_is_active)

text \<open>
  A name with \<open>is_\<close> in its interior, which the claim leaves out, is described as a flag.
\<close>

theorem C5_counterexample:
  "\<not> spec_flag_name ''analysis_type''
   \<and> generate_column_description env0 ''analysis_type'' ''VARCHAR(20)'' [] =
       Inr ''Flag indicating Analysis type''"
proof -
  have "describe ''analysis_type'' ''VARCHAR(20)'' empty_analysis =
      flag_description ''Analysis type'' empty_analysis"
    using describe_flag[OF analysis_type_rule(1-5)] by (simp add: clean_analysis_type)
  then show ?thesis
    using analysis_type_rule(6)
    by (simp add: generate_column_description_def analyze_sample_data_def
        flag_description_def truthy_def empty_analysis_def)
qed

end
